theory Spec2Isabelle
  imports Main "HOL-Library.Word"
begin

unbundle bit_operations_syntax

section \<open>Machine types\<close>

type_synonym u32 = "32 word"

section \<open>Bit fields of a 32-bit word\<close>

text \<open>
  Modelled from the spec: \<^verbatim>\<open>common/bitfield.h\<close> (the \<^verbatim>\<open>BitField\<close> template) is not
  among the sources. A \<^verbatim>\<open>BitField<u32, T, BitIndex, BitCount>\<close> member of a union is the
  \<^verbatim>\<open>BitCount\<close> bits of the backing word that start at bit \<^verbatim>\<open>BitIndex\<close>: reading it
  masks and shifts down, assigning to it replaces exactly those bits. The spec gives the
  key as \<^verbatim>\<open>{ privilege_mode: bool, aligned_pc: 30-bit }\<close>.
\<close>

definition BitField_GetMask :: "nat \<Rightarrow> nat \<Rightarrow> u32" where
  "BitField_GetMask BitIndex BitCount =
     push_bit BitIndex (drop_bit (32 - BitCount) (NOT 0))"

definition BitField_GetValue :: "nat \<Rightarrow> nat \<Rightarrow> u32 \<Rightarrow> u32" where
  "BitField_GetValue BitIndex BitCount data =
     drop_bit BitIndex (data AND BitField_GetMask BitIndex BitCount)"

definition BitField_SetValue :: "nat \<Rightarrow> nat \<Rightarrow> u32 \<Rightarrow> u32 \<Rightarrow> u32" where
  "BitField_SetValue BitIndex BitCount v data =
     (data AND NOT (BitField_GetMask BitIndex BitCount))
       OR (push_bit BitIndex v AND BitField_GetMask BitIndex BitCount)"

section \<open>CodeBlockKey\<close>

text \<open>
  The key is a union over one 32-bit word \<^verbatim>\<open>bits\<close>; \<^verbatim>\<open>user_mode\<close> is the bit field
  at bit 0 (one bit, read as bool) and \<^verbatim>\<open>aligned_pc\<close> the bit field at bits 2..31.
  Bit 1 belongs to neither field.
\<close>

datatype CodeBlockKey = CodeBlockKey (bits: u32)

definition user_mode :: "CodeBlockKey \<Rightarrow> bool" where
  "user_mode k = (BitField_GetValue 0 1 (bits k) \<noteq> 0)"

definition set_user_mode :: "bool \<Rightarrow> CodeBlockKey \<Rightarrow> CodeBlockKey" where
  "set_user_mode v k = CodeBlockKey (BitField_SetValue 0 1 (if v then 1 else 0) (bits k))"

definition aligned_pc :: "CodeBlockKey \<Rightarrow> u32" where
  "aligned_pc k = BitField_GetValue 2 30 (bits k)"

definition set_aligned_pc :: "u32 \<Rightarrow> CodeBlockKey \<Rightarrow> CodeBlockKey" where
  "set_aligned_pc v k = CodeBlockKey (BitField_SetValue 2 30 v (bits k))"

definition GetPC :: "CodeBlockKey \<Rightarrow> u32" where
  "GetPC k = push_bit 2 (aligned_pc k)"

definition SetPC :: "u32 \<Rightarrow> CodeBlockKey \<Rightarrow> CodeBlockKey" where
  "SetPC guest_pc k = set_aligned_pc (drop_bit 2 guest_pc) k"

text \<open>\<^verbatim>\<open>operator==\<close>, \<^verbatim>\<open>operator!=\<close> and \<^verbatim>\<open>operator<\<close> compare the whole word.\<close>

definition key_eq :: "CodeBlockKey \<Rightarrow> CodeBlockKey \<Rightarrow> bool" where
  "key_eq a b = (bits a = bits b)"

definition key_neq :: "CodeBlockKey \<Rightarrow> CodeBlockKey \<Rightarrow> bool" where
  "key_neq a b = (bits a \<noteq> bits b)"

definition key_less :: "CodeBlockKey \<Rightarrow> CodeBlockKey \<Rightarrow> bool" where
  "key_less a b = (bits a < bits b)"

section \<open>Constants of the bus and of the CPU types\<close>

text \<open>
  \<^verbatim>\<open>bus.h\<close> and \<^verbatim>\<open>cpu_types.h\<close> are not among the sources, so the constants the header
  takes from them are parameters of the model: every function that reads one of them
  takes the record \<open>c\<close> below. All of them are \<^verbatim>\<open>u32\<close> values in the source.
\<close>

record Constants =
  RAM_SIZE :: u32
  RAM_MASK :: u32
  BIOS_BASE :: u32
  BIOS_SIZE :: u32
  BIOS_MASK :: u32
  PHYSICAL_MEMORY_ADDRESS_MASK :: u32
  CPU_CODE_CACHE_PAGE_SIZE :: u32
  CPU_CODE_CACHE_PAGE_COUNT :: u32

text \<open>
  One instance of the parameters, used to run the definitions on concrete inputs: 2 MiB
  of RAM at physical address 0, 512 KiB of BIOS at \<^verbatim>\<open>0x1FC00000\<close>, 29-bit physical
  addresses and 1 KiB code pages, 2048 of them for the RAM.
\<close>

definition psx_constants :: Constants where
  "psx_constants =
     \<lparr> RAM_SIZE = 0x200000, RAM_MASK = 0x1FFFFF,
       BIOS_BASE = 0x1FC00000, BIOS_SIZE = 0x80000, BIOS_MASK = 0x7FFFF,
       PHYSICAL_MEMORY_ADDRESS_MASK = 0x1FFFFFFF,
       CPU_CODE_CACHE_PAGE_SIZE = 1024, CPU_CODE_CACHE_PAGE_COUNT = 2048 \<rparr>"

text \<open>
  Modelled from the spec: the type \<^verbatim>\<open>Instruction\<close> (\<^verbatim>\<open>cpu_types.h\<close>) is absent; the spec
  gives guest instructions as fixed-width, 4 bytes each.
\<close>

definition sizeof_Instruction :: nat where
  "sizeof_Instruction = 4"

definition GetPCPhysicalAddress :: "Constants \<Rightarrow> CodeBlockKey \<Rightarrow> u32" where
  "GetPCPhysicalAddress c k = push_bit 2 (aligned_pc k) AND PHYSICAL_MEMORY_ADDRESS_MASK c"

section \<open>The CPU, host code pointers, instructions and blocks\<close>

text \<open>
  Of the CPU core the header reads only the program counter (\<^verbatim>\<open>cpu->GetRegs().pc\<close>); the
  rest of its state is the extension of the record. A \<^verbatim>\<open>HostCodePointer\<close> is a
  \<^verbatim>\<open>void (*)(Core*)\<close>: \<open>None\<close> is the null pointer, \<open>Some f\<close> a function that
  updates the core it is given.
\<close>

record Core =
  regs_pc :: u32

type_synonym 'a HostCodePointer = "('a Core_scheme \<Rightarrow> 'a Core_scheme) option"

text \<open>An \<^verbatim>\<open>Instruction\<close> is held as its 32-bit encoding.\<close>

record CodeBlockInstruction =
  instruction :: u32
  pc :: u32
  is_branch_instruction :: bool
  is_branch_delay_slot :: bool
  is_load_instruction :: bool
  is_store_instruction :: bool
  is_load_delay_slot :: bool
  is_last_instruction :: bool
  has_load_delay :: bool
  can_trap :: bool

text \<open>
  A \<^verbatim>\<open>CodeBlock*\<close> is an address in the store of blocks (see \<open>CodeCache\<close> below), so the
  two link vectors hold addresses. The vector \<^verbatim>\<open>loadstore_backpatch_info\<close>, present only
  under \<^verbatim>\<open>WITH_RECOMPILER\<close>, is left to the extension of the record.
\<close>

type_synonym block_ptr = nat

record 'a CodeBlock =
  key :: CodeBlockKey
  host_code_size :: u32
  host_code :: "'a HostCodePointer"
  instructions :: "CodeBlockInstruction list"
  link_predecessors :: "block_ptr list"
  link_successors :: "block_ptr list"
  contains_loadstore_instructions :: bool
  invalidated :: bool

text \<open>The constructor \<^verbatim>\<open>CodeBlock(k)\<close> with the default member initialisers.\<close>

definition new_CodeBlock :: "CodeBlockKey \<Rightarrow> 'a CodeBlock" where
  "new_CodeBlock k =
     \<lparr> key = k, host_code_size = 0, host_code = None, instructions = [],
       link_predecessors = [], link_successors = [],
       contains_loadstore_instructions = False, invalidated = False \<rparr>"

definition CodeBlock_GetPC :: "('a, 'b) CodeBlock_scheme \<Rightarrow> u32" where
  "CodeBlock_GetPC b = GetPC (key b)"

text \<open>
  \<^verbatim>\<open>static_cast<u32>(instructions.size()) * sizeof(Instruction)\<close>, returned as \<^verbatim>\<open>u32\<close>:
  the count is cut to 32 bits, and so is the product.
\<close>

definition GetSizeInBytes :: "('a, 'b) CodeBlock_scheme \<Rightarrow> u32" where
  "GetSizeInBytes b =
     (word_of_nat (length (instructions b)) :: u32) * word_of_nat sizeof_Instruction"

text \<open>
  The page size is a nonzero compile-time constant of the source; word division by zero
  would be 0 here, so the theorems about page indices assume it is not zero.
\<close>

definition GetStartPageIndex :: "Constants \<Rightarrow> ('a, 'b) CodeBlock_scheme \<Rightarrow> u32" where
  "GetStartPageIndex c b = GetPCPhysicalAddress c (key b) div CPU_CODE_CACHE_PAGE_SIZE c"

definition GetEndPageIndex :: "Constants \<Rightarrow> ('a, 'b) CodeBlock_scheme \<Rightarrow> u32" where
  "GetEndPageIndex c b =
     (GetPCPhysicalAddress c (key b) + GetSizeInBytes b) div CPU_CODE_CACHE_PAGE_SIZE c"

definition IsInRAM :: "Constants \<Rightarrow> ('a, 'b) CodeBlock_scheme \<Rightarrow> bool" where
  "IsInRAM c b = (GetPCPhysicalAddress c (key b) < 0x200000)"

section \<open>BlockFunctionLookup\<close>

text \<open>
  \<^verbatim>\<open>m_slots\<close> is a \<^verbatim>\<open>std::array\<close> of \<^verbatim>\<open>TOTAL_SLOT_COUNT\<close> host code pointers, all null
  at first. Indexing it out of range and calling a null pointer are undefined behaviour
  in the source; the model returns them as faults. \<open>InvalidDispatchTarget\<close> is the error
  kind the spec names for a PC outside RAM and BIOS; no path of the header produces it.
\<close>

datatype fault = InvalidDispatchTarget | SlotIndexOutOfBounds | NullFunctionCall

record 'a BlockFunctionLookup =
  m_slots :: "'a HostCodePointer list"

definition RAM_SLOT_COUNT :: "Constants \<Rightarrow> u32" where
  "RAM_SLOT_COUNT c = RAM_SIZE c div 4"

definition BIOS_SLOT_COUNT :: "Constants \<Rightarrow> u32" where
  "BIOS_SLOT_COUNT c = BIOS_SIZE c div 4"

definition TOTAL_SLOT_COUNT :: "Constants \<Rightarrow> u32" where
  "TOTAL_SLOT_COUNT c = RAM_SLOT_COUNT c + BIOS_SLOT_COUNT c"

definition new_BlockFunctionLookup :: "Constants \<Rightarrow> 'a BlockFunctionLookup" where
  "new_BlockFunctionLookup c = \<lparr> m_slots = replicate (unat (TOTAL_SLOT_COUNT c)) None \<rparr>"

definition GetArrayIndex :: "Constants \<Rightarrow> u32 \<Rightarrow> u32" where
  "GetArrayIndex c guest_pc =
     (if (guest_pc AND PHYSICAL_MEMORY_ADDRESS_MASK c) \<ge> BIOS_BASE c
      then RAM_SLOT_COUNT c + drop_bit 2 (guest_pc AND BIOS_MASK c)
      else drop_bit 2 (guest_pc AND RAM_MASK c))"

definition Reset :: "'a HostCodePointer \<Rightarrow> 'a BlockFunctionLookup \<Rightarrow> 'a BlockFunctionLookup" where
  "Reset default_function l = l\<lparr> m_slots := map (\<lambda>_. default_function) (m_slots l) \<rparr>"

definition SetBlockPointer ::
  "Constants \<Rightarrow> u32 \<Rightarrow> 'a HostCodePointer \<Rightarrow> 'a BlockFunctionLookup
     \<Rightarrow> fault + 'a BlockFunctionLookup" where
  "SetBlockPointer c guest_pc function l =
     (let i = unat (GetArrayIndex c guest_pc)
      in if i < length (m_slots l) then Inr (l\<lparr> m_slots := (m_slots l)[i := function] \<rparr>)
         else Inl SlotIndexOutOfBounds)"

definition Dispatch ::
  "Constants \<Rightarrow> 'a BlockFunctionLookup \<Rightarrow> 'a Core_scheme \<Rightarrow> fault + 'a Core_scheme" where
  "Dispatch c l cpu =
     (let i = unat (GetArrayIndex c (regs_pc cpu))
      in if i < length (m_slots l)
         then (case m_slots l ! i of None \<Rightarrow> Inl NullFunctionCall | Some f \<Rightarrow> Inr (f cpu))
         else Inl SlotIndexOutOfBounds)"

text \<open>
  What is asked of the constants for the slot array to be indexed in range: each mask,
  shifted to a slot number, stays below the slot count of its region. It holds when a
  mask is the region size minus one and the size is a nonzero multiple of 4.
\<close>

definition masks_fit :: "Constants \<Rightarrow> bool" where
  "masks_fit c \<longleftrightarrow>
     drop_bit 2 (RAM_MASK c) < RAM_SLOT_COUNT c \<and> drop_bit 2 (BIOS_MASK c) < BIOS_SLOT_COUNT c"

text \<open>A PC whose physical address is in neither the RAM nor the BIOS range.\<close>

definition outside_RAM_and_BIOS :: "Constants \<Rightarrow> u32 \<Rightarrow> bool" where
  "outside_RAM_and_BIOS c guest_pc \<longleftrightarrow>
     (let a = unat (guest_pc AND PHYSICAL_MEMORY_ADDRESS_MASK c)
      in \<not> a < unat (RAM_SIZE c)
         \<and> \<not> (unat (BIOS_BASE c) \<le> a \<and> a < unat (BIOS_BASE c) + unat (BIOS_SIZE c)))"

text \<open>The byte range of a block, as natural numbers: its first byte and one past its last.\<close>

definition first_byte :: "Constants \<Rightarrow> ('a, 'b) CodeBlock_scheme \<Rightarrow> nat" where
  "first_byte c b = unat (GetPCPhysicalAddress c (key b))"

definition end_byte :: "Constants \<Rightarrow> ('a, 'b) CodeBlock_scheme \<Rightarrow> nat" where
  "end_byte c b = first_byte c b + length (instructions b) * sizeof_Instruction"

text \<open>
  The block has a byte in page \<open>page\<close>, the bytes from \<open>page * page size\<close> up to the
  next page.
\<close>

definition block_overlaps_page :: "Constants \<Rightarrow> ('a, 'b) CodeBlock_scheme \<Rightarrow> u32 \<Rightarrow> bool" where
  "block_overlaps_page c b page \<longleftrightarrow>
     first_byte c b < end_byte c b
     \<and> first_byte c b < (unat page + 1) * unat (CPU_CODE_CACHE_PAGE_SIZE c)
     \<and> unat page * unat (CPU_CODE_CACHE_PAGE_SIZE c) < end_byte c b"

section \<open>CodeCache: the page index and invalidation of a page\<close>

text \<open>
  The header declares the cache's members and functions; the functions are defined in
  \<^verbatim>\<open>cpu_code_cache.cpp\<close>, which is not among the sources. The blocks live in a store,
  by address; \<^verbatim>\<open>m_blocks\<close> maps the bits of a key to the address of its block;
  \<^verbatim>\<open>m_ram_block_map\<close> is a \<^verbatim>\<open>std::array\<close> of \<^verbatim>\<open>CPU_CODE_CACHE_PAGE_COUNT\<close> vectors of
  block addresses, one per code page of the RAM. Indexing the array out of range is
  undefined behaviour in the source; the model returns it as a fault. The other members
  of the class do not enter invalidation and are left to the extension of the record.
\<close>

datatype cache_fault = PageIndexOutOfBounds

record 'a CodeCache =
  store :: "block_ptr \<rightharpoonup> 'a CodeBlock"
  m_blocks :: "u32 \<rightharpoonup> block_ptr"
  m_ram_block_map :: "block_ptr list list"

text \<open>A cache as constructed: no blocks, and every vector of the page index empty.\<close>

definition new_CodeCache :: "Constants \<Rightarrow> 'a CodeCache" where
  "new_CodeCache c =
     \<lparr> store = Map.empty, m_blocks = Map.empty,
       m_ram_block_map = replicate (unat (CPU_CODE_CACHE_PAGE_COUNT c)) [] \<rparr>"

text \<open>
  Modelled from the spec: \<^verbatim>\<open>CodeCache::AddBlockToPageMap\<close> is declared in the header and
  defined in the absent \<^verbatim>\<open>cpu_code_cache.cpp\<close>. The spec: the page index maps a page to the
  units whose guest byte range overlaps that page, and a unit's start and end page
  indices are derived from its PC and size. The block is appended to the vector of every
  page of the index from its \<open>GetStartPageIndex\<close> to its \<open>GetEndPageIndex\<close>; pages of
  that span beyond the array (a block outside the RAM) have no entry to add to.
\<close>

definition AddBlockToPageMap :: "Constants \<Rightarrow> block_ptr \<Rightarrow> 'a CodeCache \<Rightarrow> 'a CodeCache" where
  "AddBlockToPageMap c p s =
     (case store s p of
        None \<Rightarrow> s
      | Some b \<Rightarrow>
          s\<lparr> m_ram_block_map :=
               map (\<lambda>(page, blocks).
                      if unat (GetStartPageIndex c b) \<le> page \<and> page \<le> unat (GetEndPageIndex c b)
                      then blocks @ [p] else blocks)
                   (enumerate 0 (m_ram_block_map s)) \<rparr>)"

text \<open>
  Modelled from the spec: \<^verbatim>\<open>CodeCache::CompileBlock\<close> is declared in the header and
  defined in the absent \<^verbatim>\<open>cpu_code_cache.cpp\<close>. The spec: compilation decodes a run of
  instructions at the key's PC, builds the unit and registers it in the primary table
  and the page index. Decoding and code generation are external: the decoded
  instructions \<open>instrs\<close> and the address \<open>p\<close> of the new block are given, and the block
  has no host code.
\<close>

definition CompileBlock ::
  "Constants \<Rightarrow> CodeBlockKey \<Rightarrow> CodeBlockInstruction list \<Rightarrow> block_ptr \<Rightarrow> 'a CodeCache
     \<Rightarrow> 'a CodeCache" where
  "CompileBlock c k instrs p s =
     AddBlockToPageMap c p
       (s\<lparr> store := (store s)(p \<mapsto> (new_CodeBlock k)\<lparr> instructions := instrs \<rparr>),
           m_blocks := (m_blocks s)(bits k \<mapsto> p) \<rparr>)"

text \<open>
  Modelled from the spec: \<^verbatim>\<open>CodeCache::LinkBlock\<close> is declared in the header
  (\<^emph>\<open>Link block from to to\<close>) and defined in the absent \<^verbatim>\<open>cpu_code_cache.cpp\<close>. The spec:
  it records a directed edge from one unit to another. The target is appended to the
  successors of the source and the source to the predecessors of the target; nothing is
  done unless both blocks are in the store. (The spec makes a link legal only between two
  unexpired units; that is left to the caller.)
\<close>

definition LinkBlock :: "block_ptr \<Rightarrow> block_ptr \<Rightarrow> 'a CodeCache \<Rightarrow> 'a CodeCache" where
  "LinkBlock pf pt s =
     (case store s pf of
        None \<Rightarrow> s
      | Some bf \<Rightarrow>
          (let h = (store s)(pf \<mapsto> bf\<lparr> link_successors := link_successors bf @ [pt] \<rparr>)
           in case h pt of
                None \<Rightarrow> s
              | Some bt \<Rightarrow>
                  s\<lparr> store := h(pt \<mapsto> bt\<lparr> link_predecessors := link_predecessors bt @ [pf] \<rparr>) \<rparr>))"

text \<open>
  Modelled from the spec: \<^verbatim>\<open>CodeCache::UnlinkBlock\<close> is declared in the header
  (\<^emph>\<open>Unlink all blocks which point to this block, and any that this block links to\<close>) and
  defined in the absent \<^verbatim>\<open>cpu_code_cache.cpp\<close>. The spec: it severs every edge where the
  unit is either end. The block is taken out of the successors of each of its
  predecessors and out of the predecessors of each of its successors, and its own two
  vectors are emptied.
\<close>

definition erase_link_successor ::
  "block_ptr \<Rightarrow> block_ptr \<Rightarrow> (block_ptr \<rightharpoonup> 'a CodeBlock) \<Rightarrow> (block_ptr \<rightharpoonup> 'a CodeBlock)" where
  "erase_link_successor p q h =
     (case h q of
        None \<Rightarrow> h
      | Some b \<Rightarrow> h(q \<mapsto> b\<lparr> link_successors := removeAll p (link_successors b) \<rparr>))"

definition erase_link_predecessor ::
  "block_ptr \<Rightarrow> block_ptr \<Rightarrow> (block_ptr \<rightharpoonup> 'a CodeBlock) \<Rightarrow> (block_ptr \<rightharpoonup> 'a CodeBlock)" where
  "erase_link_predecessor p q h =
     (case h q of
        None \<Rightarrow> h
      | Some b \<Rightarrow> h(q \<mapsto> b\<lparr> link_predecessors := removeAll p (link_predecessors b) \<rparr>))"

definition clear_links ::
  "block_ptr \<Rightarrow> (block_ptr \<rightharpoonup> 'a CodeBlock) \<Rightarrow> (block_ptr \<rightharpoonup> 'a CodeBlock)" where
  "clear_links p h =
     (case h p of
        None \<Rightarrow> h
      | Some b \<Rightarrow> h(p \<mapsto> b\<lparr> link_predecessors := [], link_successors := [] \<rparr>))"

definition UnlinkBlock ::
  "block_ptr \<Rightarrow> (block_ptr \<rightharpoonup> 'a CodeBlock) \<Rightarrow> (block_ptr \<rightharpoonup> 'a CodeBlock)" where
  "UnlinkBlock p h =
     (case h p of
        None \<Rightarrow> h
      | Some b \<Rightarrow>
          clear_links p
            (fold (erase_link_predecessor p) (link_successors b)
               (fold (erase_link_successor p) (link_predecessors b) h)))"

text \<open>
  Modelled from the spec: \<^verbatim>\<open>CodeCache::FlushBlock\<close> is declared in the header and defined
  in the absent \<^verbatim>\<open>cpu_code_cache.cpp\<close>. The spec: it unlinks the unit, removes it from the
  primary table and the page index, and destroys it.
\<close>

definition FlushBlock :: "block_ptr \<Rightarrow> 'a CodeCache \<Rightarrow> 'a CodeCache" where
  "FlushBlock p s =
     (case store s p of
        None \<Rightarrow> s
      | Some b \<Rightarrow>
          s\<lparr> store := (UnlinkBlock p (store s))(p := None),
              m_blocks := (m_blocks s)(bits (key b) := None),
              m_ram_block_map := map (removeAll p) (m_ram_block_map s) \<rparr>)"

text \<open>
  Modelled from the spec: \<^verbatim>\<open>CodeCache::InvalidateBlocksWithPageIndex\<close> is declared in the
  header (\<^emph>\<open>Invalidates all blocks which are in the range of the specified code page\<close>) and
  defined in the absent \<^verbatim>\<open>cpu_code_cache.cpp\<close>. The spec: for every unit overlapping that
  page, set \<^verbatim>\<open>invalidated = true\<close> and unlink it; the unit is not freed. The units of a
  page are those in the vector \<^verbatim>\<open>m_ram_block_map[page_index]\<close>.
\<close>

definition mark_invalidated ::
  "block_ptr \<Rightarrow> (block_ptr \<rightharpoonup> 'a CodeBlock) \<Rightarrow> (block_ptr \<rightharpoonup> 'a CodeBlock)" where
  "mark_invalidated p h =
     (case h p of None \<Rightarrow> h | Some b \<Rightarrow> h(p \<mapsto> b\<lparr> invalidated := True \<rparr>))"

definition InvalidateBlocksWithPageIndex ::
  "u32 \<Rightarrow> 'a CodeCache \<Rightarrow> cache_fault + 'a CodeCache" where
  "InvalidateBlocksWithPageIndex page_index s =
     (if unat page_index < length (m_ram_block_map s)
      then Inr (s\<lparr> store := fold (\<lambda>p h. UnlinkBlock p (mark_invalidated p h))
                               (m_ram_block_map s ! unat page_index) (store s) \<rparr>)
      else Inl PageIndexOutOfBounds)"

text \<open>
  The caches the operations above can produce, starting from the constructed one. A
  block is compiled at an address that is not in use. Recompilation of a block in place
  (revalidation) is not among the operations: the spec does not say how the page index
  follows a block whose instructions change.
\<close>

inductive cache_reachable :: "Constants \<Rightarrow> 'a CodeCache \<Rightarrow> bool" for c :: Constants where
  reachable_new: "cache_reachable c (new_CodeCache c)"
| reachable_CompileBlock:
    "cache_reachable c s \<Longrightarrow> store s p = None \<Longrightarrow> cache_reachable c (CompileBlock c k instrs p s)"
| reachable_LinkBlock:
    "cache_reachable c s \<Longrightarrow> cache_reachable c (LinkBlock pf pt s)"
| reachable_FlushBlock:
    "cache_reachable c s \<Longrightarrow> cache_reachable c (FlushBlock p s)"
| reachable_Invalidate:
    "cache_reachable c s \<Longrightarrow> InvalidateBlocksWithPageIndex page_index s = Inr s'
       \<Longrightarrow> cache_reachable c s'"

text \<open>
  The invariant of the page index: the array has \<open>CPU_CODE_CACHE_PAGE_COUNT\<close> entries,
  and every block of the primary table is listed under each page of the array that its
  byte range (when it does not run past the 32-bit address space) has a byte in.
\<close>

definition page_map_covers :: "Constants \<Rightarrow> 'a CodeCache \<Rightarrow> bool" where
  "page_map_covers c s \<longleftrightarrow>
     length (m_ram_block_map s) = unat (CPU_CODE_CACHE_PAGE_COUNT c)
     \<and> (\<forall>k p b page.
          m_blocks s k = Some p \<and> store s p = Some b \<and> end_byte c b < 2 ^ 32
          \<and> unat page < length (m_ram_block_map s) \<and> block_overlaps_page c b page
          \<longrightarrow> p \<in> set (m_ram_block_map s ! unat page))"

text \<open>
  What invalidation may change in a block: key, instructions and host code stay, a set
  \<open>invalidated\<close> flag stays set, and links are only removed. In a store: the blocks stay
  where they are, each changed at most in that way.
\<close>

definition block_kept :: "'a CodeBlock \<Rightarrow> 'a CodeBlock \<Rightarrow> bool" where
  "block_kept b b' \<longleftrightarrow>
     key b' = key b \<and> instructions b' = instructions b
     \<and> host_code b' = host_code b \<and> host_code_size b' = host_code_size b
     \<and> (invalidated b \<longrightarrow> invalidated b')
     \<and> set (link_predecessors b') \<subseteq> set (link_predecessors b)
     \<and> set (link_successors b') \<subseteq> set (link_successors b)"

definition only_unlinks ::
  "(block_ptr \<rightharpoonup> 'a CodeBlock) \<Rightarrow> (block_ptr \<rightharpoonup> 'a CodeBlock) \<Rightarrow> bool" where
  "only_unlinks h h' \<longleftrightarrow>
     (\<forall>q. case h q of
            None \<Rightarrow> h' q = None
          | Some b \<Rightarrow> (case h' q of None \<Rightarrow> False | Some b' \<Rightarrow> block_kept b b'))"

text \<open>
  Two stores hold the same code: every block of the second is a block of the first at the
  same address, with the same key and instructions.
\<close>

definition same_code ::
  "(block_ptr \<rightharpoonup> 'a CodeBlock) \<Rightarrow> (block_ptr \<rightharpoonup> 'a CodeBlock) \<Rightarrow> bool" where
  "same_code h h' \<longleftrightarrow>
     (\<forall>q b'. h' q = Some b' \<longrightarrow>
        (\<exists>b. h q = Some b \<and> key b = key b' \<and> instructions b = instructions b'))"

text \<open>A block that is invalidated and has no links left.\<close>

definition invalidated_and_unlinked :: "(block_ptr \<rightharpoonup> 'a CodeBlock) \<Rightarrow> block_ptr \<Rightarrow> bool" where
  "invalidated_and_unlinked h p \<longleftrightarrow>
     (case h p of None \<Rightarrow> False
      | Some b \<Rightarrow> invalidated b \<and> link_predecessors b = [] \<and> link_successors b = [])"

section \<open>Concrete values for running the definitions\<close>

definition nop :: CodeBlockInstruction where
  "nop = \<lparr> instruction = 0, pc = 0, is_branch_instruction = False,
     is_branch_delay_slot = False, is_load_instruction = False, is_store_instruction = False,
     is_load_delay_slot = False, is_last_instruction = False, has_load_delay = False,
     can_trap = False \<rparr>"

text \<open>A host function: it advances the PC by one instruction.\<close>

definition step_pc :: "'a Core_scheme \<Rightarrow> 'a Core_scheme" where
  "step_pc cpu = cpu\<lparr> regs_pc := regs_pc cpu + 4 \<rparr>"

text \<open>
  Two blocks at \<^verbatim>\<open>0x800013F8\<close>: an empty one, and one of two instructions, whose last
  byte is the last byte of page 4.
\<close>

definition empty_block :: "unit CodeBlock" where
  "empty_block = new_CodeBlock (CodeBlockKey 0x800013F8)"

definition boundary_block :: "unit CodeBlock" where
  "boundary_block = empty_block\<lparr> instructions := [nop, nop] \<rparr>"

text \<open>
  A cache built by the operations: block 1 compiled at \<^verbatim>\<open>0x80001000\<close> (three
  instructions, in page 4), block 2 compiled at \<^verbatim>\<open>0x80002000\<close> (one instruction, in
  page 8), and block 1 linked to block 2.
\<close>

definition two_blocks :: "unit CodeCache" where
  "two_blocks =
     LinkBlock 1 2
       (CompileBlock psx_constants (CodeBlockKey 0x80002000) [nop] 2
          (CompileBlock psx_constants (CodeBlockKey 0x80001000) [nop, nop, nop] 1
             (new_CodeCache psx_constants)))"

definition block_A :: "unit CodeBlock" where
  "block_A = (new_CodeBlock (CodeBlockKey 0x80001000))
     \<lparr> instructions := [nop, nop, nop], link_successors := [2] \<rparr>"

definition block_B :: "unit CodeBlock" where
  "block_B = (new_CodeBlock (CodeBlockKey 0x80002000))
     \<lparr> instructions := [nop], link_predecessors := [1] \<rparr>"

section \<open>Lemmas on the bit fields\<close>

lemma Suc_Suc_diff2: "2 \<le> n \<Longrightarrow> Suc (Suc (n - 2)) = n"
  by arith

lemma bit_BitField_GetMask:
  "BitCount \<le> 32 \<Longrightarrow>
   bit (BitField_GetMask BitIndex BitCount) n \<longleftrightarrow>
     BitIndex \<le> n \<and> n < BitIndex + BitCount \<and> n < 32"
  by (auto simp add: BitField_GetMask_def bit_simps)

lemma bit_BitField_GetValue:
  "BitCount \<le> 32 \<Longrightarrow>
   bit (BitField_GetValue BitIndex BitCount d) n \<longleftrightarrow>
     n < BitCount \<and> BitIndex + n < 32 \<and> bit d (BitIndex + n)"
  by (auto simp add: BitField_GetValue_def bit_simps bit_BitField_GetMask dest: bit_imp_le_length)

lemma bit_BitField_SetValue:
  "BitCount \<le> 32 \<Longrightarrow>
   bit (BitField_SetValue BitIndex BitCount v d) n \<longleftrightarrow>
     (if BitIndex \<le> n \<and> n < BitIndex + BitCount \<and> n < 32 then bit v (n - BitIndex)
      else bit d n)"
  by (auto simp add: BitField_SetValue_def bit_simps bit_BitField_GetMask dest: bit_imp_le_length)

lemma user_mode_bit: "user_mode k \<longleftrightarrow> bit (bits k) 0"
proof -
  have "BitField_GetValue 0 1 (bits k) = 0 \<longleftrightarrow> \<not> bit (bits k) 0"
  proof
    assume "BitField_GetValue 0 1 (bits k) = 0"
    then have "\<not> bit (BitField_GetValue 0 1 (bits k)) 0" by simp
    then show "\<not> bit (bits k) 0" by (simp add: bit_BitField_GetValue)
  next
    assume "\<not> bit (bits k) 0"
    then show "BitField_GetValue 0 1 (bits k) = 0"
      by (intro bit_word_eqI) (auto simp add: bit_BitField_GetValue)
  qed
  then show ?thesis by (simp add: user_mode_def)
qed

lemma bit_aligned_pc: "bit (aligned_pc k) n \<longleftrightarrow> n < 30 \<and> bit (bits k) (n + 2)"
  by (auto simp add: aligned_pc_def bit_BitField_GetValue add.commute)

lemma bit_GetPC: "bit (GetPC k) n \<longleftrightarrow> 2 \<le> n \<and> bit (bits k) n"
  by (auto simp add: GetPC_def bit_aligned_pc bit_simps Suc_Suc_diff2 dest: bit_imp_le_length)

lemma bit_SetPC:
  "bit (bits (SetPC guest_pc k)) n \<longleftrightarrow> (if 2 \<le> n then bit guest_pc n else bit (bits k) n)"
  by (auto simp add: SetPC_def set_aligned_pc_def bit_simps bit_BitField_SetValue Suc_Suc_diff2
      dest: bit_imp_le_length)

lemma three_mask: "(3::u32) = mask 2"
  by (simp add: mask_eq_exp_minus_1)

lemma clear_low2: "(x::u32) AND NOT 3 = push_bit 2 (drop_bit 2 x)"
  unfolding three_mask
  by (rule bit_word_eqI) (auto simp add: bit_simps Suc_Suc_diff2)

lemma aligned_low2: "(x::u32) AND 3 = 0 \<Longrightarrow> push_bit 2 (drop_bit 2 x) = x"
  unfolding three_mask
proof (rule bit_word_eqI)
  fix n assume a: "x AND mask 2 = 0" and n: "n < LENGTH(32)"
  from a have "\<not> bit (x AND mask 2) n" by simp
  then have "n < 2 \<longrightarrow> \<not> bit x n" using n by (auto simp add: bit_simps)
  then show "bit (push_bit 2 (drop_bit 2 x)) n = bit x n"
    using n by (auto simp add: bit_simps Suc_Suc_diff2)
qed

lemma GetPC_SetPC: "GetPC (SetPC guest_pc k) = push_bit 2 (drop_bit 2 guest_pc)"
  by (rule bit_word_eqI) (auto simp add: bit_GetPC bit_SetPC bit_simps Suc_Suc_diff2)

lemma BitField_GetMask_aligned_pc: "BitField_GetMask 2 30 = 0xFFFFFFFC"
  by (simp add: BitField_GetMask_def mask_eq_exp_minus_1)

lemma BitField_GetMask_user_mode: "BitField_GetMask 0 1 = 1"
  by (simp add: BitField_GetMask_def)

section \<open>CodeBlockKey: program counter and equality\<close>

text \<open>
  Claim C6. For a 4-byte-aligned \<open>guest_pc\<close>, \<open>SetPC\<close> followed by \<open>GetPC\<close> gives
  \<open>guest_pc\<close> back; for any \<open>guest_pc\<close> it gives \<open>guest_pc\<close> with its low two bits
  cleared; \<open>GetPC\<close> is \<open>aligned_pc\<close> times 4; and \<open>SetPC\<close> leaves \<open>user_mode\<close> as it
  was.
\<close>

theorem SetPC_GetPC_roundtrip:
  "(guest_pc AND 3 = 0 \<longrightarrow> GetPC (SetPC guest_pc k) = guest_pc)
   \<and> GetPC (SetPC guest_pc k) = guest_pc AND NOT 3
   \<and> GetPC k = aligned_pc k * 4
   \<and> user_mode (SetPC guest_pc k) = user_mode k"
proof (intro conjI impI)
  assume "guest_pc AND 3 = 0"
  then show "GetPC (SetPC guest_pc k) = guest_pc" by (simp add: GetPC_SetPC aligned_low2)
next
  show "GetPC (SetPC guest_pc k) = guest_pc AND NOT 3" by (simp only: GetPC_SetPC clear_low2)
next
  show "GetPC k = aligned_pc k * 4" by (simp add: GetPC_def push_bit_eq_mult)
next
  show "user_mode (SetPC guest_pc k) = user_mode k" by (simp add: user_mode_bit bit_SetPC)
qed

theorem SetPC_GetPC_roundtrip_witness:
  "(0x80010000 :: u32) AND 3 = 0
   \<and> GetPC (SetPC 0x80010000 (CodeBlockKey 1)) = 0x80010000
   \<and> GetPC (SetPC 0x80010002 (CodeBlockKey 1)) = 0x80010000
   \<and> user_mode (SetPC 0x80010000 (CodeBlockKey 1))"
proof -
  have a: "(0x80010000 :: u32) AND 3 = 0" by simp
  have u: "user_mode (CodeBlockKey 1)"
    by (simp add: user_mode_def BitField_GetValue_def BitField_GetMask_def)
  have c: "(0x80010002 :: u32) AND NOT 3 = 0x80010000" by simp
  from SetPC_GetPC_roundtrip [of "0x80010000" "CodeBlockKey 1"] a u
  have "GetPC (SetPC 0x80010000 (CodeBlockKey 1)) = 0x80010000
      \<and> user_mode (SetPC 0x80010000 (CodeBlockKey 1))" by simp
  moreover from SetPC_GetPC_roundtrip [of "0x80010002" "CodeBlockKey 1"] c
  have "GetPC (SetPC 0x80010002 (CodeBlockKey 1)) = 0x80010000" by simp
  ultimately show ?thesis using a by simp
qed

text \<open>
  Claim C3, as the code has it. \<^verbatim>\<open>operator==\<close> compares all 32 bits of the key, and
  bit 1 is part of neither field. So two keys are equal exactly when they have the same
  \<open>aligned_pc\<close>, the same \<open>user_mode\<close> and the same bit 1.
\<close>

theorem key_eq_iff_fields_and_bit1:
  "key_eq a b \<longleftrightarrow>
     aligned_pc a = aligned_pc b \<and> user_mode a = user_mode b
     \<and> bit (bits a) 1 = bit (bits b) 1"
proof
  assume "key_eq a b"
  then show "aligned_pc a = aligned_pc b \<and> user_mode a = user_mode b
      \<and> bit (bits a) 1 = bit (bits b) 1"
    by (simp add: key_eq_def aligned_pc_def user_mode_def)
next
  assume h: "aligned_pc a = aligned_pc b \<and> user_mode a = user_mode b
      \<and> bit (bits a) 1 = bit (bits b) 1"
  have "bits a = bits b"
  proof (rule bit_word_eqI)
    fix n assume n: "n < LENGTH(32)"
    show "bit (bits a) n = bit (bits b) n"
    proof (cases "2 \<le> n")
      case True
      from h have "bit (aligned_pc a) (n - 2) = bit (aligned_pc b) (n - 2)" by simp
      with True n show ?thesis by (auto simp add: bit_aligned_pc Suc_Suc_diff2)
    next
      case False
      then have "n = 0 \<or> n = 1" by arith
      with h show ?thesis by (auto simp add: user_mode_bit)
    qed
  qed
  then show "key_eq a b" by (simp add: key_eq_def)
qed

text \<open>
  The claim as written (equality decided by the two fields alone) fails for the keys
  with \<^verbatim>\<open>bits = 0\<close> and \<^verbatim>\<open>bits = 2\<close>: both fields agree and \<^verbatim>\<open>operator==\<close> is false.
\<close>

theorem key_eq_two_fields_counterexample:
  "\<not> (key_eq (CodeBlockKey 0) (CodeBlockKey 2) \<longleftrightarrow>
        aligned_pc (CodeBlockKey 0) = aligned_pc (CodeBlockKey 2)
        \<and> user_mode (CodeBlockKey 0) = user_mode (CodeBlockKey 2))"
  by (simp add: key_eq_def aligned_pc_def user_mode_def BitField_GetValue_def
      BitField_GetMask_def)

section \<open>Slot indices of the dispatch table\<close>

lemma unat_div4: "unat ((x::u32) div 4) = unat x div 4"
  using unat_div [of x 4] by simp

lemma unat_drop_bit2: "unat (drop_bit 2 (x::u32)) = unat x div 4"
  using unat_drop_bit_eq [of 2 x] by (simp add: drop_bit_eq_div)

lemma unat_div4_bound: "unat ((x::u32) div 4) < 2 ^ 30"
proof -
  have "unat x < 2 ^ 32" using unsigned_less [of x] by simp
  then have "unat x div 4 < 2 ^ 30" by simp
  then show ?thesis by (simp only: unat_div4)
qed

lemma unat_drop_bit2_bound: "unat (drop_bit 2 (x::u32)) < 2 ^ 30"
proof -
  have "unat x < 2 ^ 32" using unsigned_less [of x] by simp
  then have "unat x div 4 < 2 ^ 30" by simp
  then show ?thesis by (simp only: unat_drop_bit2)
qed

lemma drop_bit2_and_le: "unat (drop_bit 2 ((x::u32) AND m)) \<le> unat (drop_bit 2 m)"
proof -
  have "x AND m \<le> m" by (rule word_and_le1)
  then have "unat (x AND m) \<le> unat m" by (simp add: word_le_nat_alt)
  then have "unat (x AND m) div 4 \<le> unat m div 4" by (rule div_le_mono)
  then show ?thesis by (simp only: unat_drop_bit2)
qed

lemma unat_TOTAL_SLOT_COUNT:
  "unat (TOTAL_SLOT_COUNT c) = unat (RAM_SLOT_COUNT c) + unat (BIOS_SLOT_COUNT c)"
proof -
  have "unat (RAM_SLOT_COUNT c) < 2 ^ 30" "unat (BIOS_SLOT_COUNT c) < 2 ^ 30"
    unfolding RAM_SLOT_COUNT_def BIOS_SLOT_COUNT_def by (rule unat_div4_bound)+
  then have "unat (RAM_SLOT_COUNT c) + unat (BIOS_SLOT_COUNT c) < 2 ^ LENGTH(32)" by simp
  then show ?thesis
    unfolding TOTAL_SLOT_COUNT_def by (simp only: unat_add_lem [THEN iffD1])
qed

lemma unat_GetArrayIndex_less:
  assumes "masks_fit c"
  shows "unat (GetArrayIndex c guest_pc) < unat (TOTAL_SLOT_COUNT c)"
proof (cases "BIOS_BASE c \<le> guest_pc AND PHYSICAL_MEMORY_ADDRESS_MASK c")
  case True
  let ?y = "drop_bit 2 (guest_pc AND BIOS_MASK c)"
  from assms have "unat (drop_bit 2 (BIOS_MASK c)) < unat (BIOS_SLOT_COUNT c)"
    unfolding masks_fit_def word_less_nat_alt by blast
  with drop_bit2_and_le [of guest_pc "BIOS_MASK c"]
  have y: "unat ?y < unat (BIOS_SLOT_COUNT c)" by linarith
  have "unat (RAM_SLOT_COUNT c) < 2 ^ 30"
    unfolding RAM_SLOT_COUNT_def by (rule unat_div4_bound)
  moreover have "unat ?y < 2 ^ 30" by (rule unat_drop_bit2_bound)
  ultimately have "unat (RAM_SLOT_COUNT c) + unat ?y < 2 ^ LENGTH(32)" by simp
  then have "unat (RAM_SLOT_COUNT c + ?y) = unat (RAM_SLOT_COUNT c) + unat ?y"
    by (simp only: unat_add_lem [THEN iffD1])
  moreover from True have "GetArrayIndex c guest_pc = RAM_SLOT_COUNT c + ?y"
    unfolding GetArrayIndex_def by (simp only: if_True)
  ultimately show ?thesis using y by (simp add: unat_TOTAL_SLOT_COUNT)
next
  case False
  let ?y = "drop_bit 2 (guest_pc AND RAM_MASK c)"
  from assms have "unat (drop_bit 2 (RAM_MASK c)) < unat (RAM_SLOT_COUNT c)"
    unfolding masks_fit_def word_less_nat_alt by blast
  with drop_bit2_and_le [of guest_pc "RAM_MASK c"]
  have "unat ?y < unat (RAM_SLOT_COUNT c)" by linarith
  moreover from False have "GetArrayIndex c guest_pc = ?y"
    unfolding GetArrayIndex_def by (simp only: if_False)
  ultimately show ?thesis by (simp add: unat_TOTAL_SLOT_COUNT)
qed

lemma masks_fit_psx: "masks_fit psx_constants"
  by (simp add: masks_fit_def psx_constants_def RAM_SLOT_COUNT_def BIOS_SLOT_COUNT_def)

lemma TOTAL_SLOT_COUNT_psx: "TOTAL_SLOT_COUNT psx_constants = 655360"
  by (simp add: TOTAL_SLOT_COUNT_def psx_constants_def RAM_SLOT_COUNT_def BIOS_SLOT_COUNT_def)

text \<open>
  Claim C9. With masks that fit their regions, \<open>GetArrayIndex\<close> of every 32-bit PC is
  below \<open>TOTAL_SLOT_COUNT\<close>, whatever its physical address, so neither
  \<open>SetBlockPointer\<close> nor \<open>Dispatch\<close> indexes the slot array out of bounds.
\<close>

theorem GetArrayIndex_in_bounds:
  assumes "masks_fit c"
  shows "GetArrayIndex c guest_pc < TOTAL_SLOT_COUNT c
     \<and> (length (m_slots l) = unat (TOTAL_SLOT_COUNT c) \<longrightarrow>
           SetBlockPointer c guest_pc f l \<noteq> Inl SlotIndexOutOfBounds
           \<and> Dispatch c l cpu \<noteq> Inl SlotIndexOutOfBounds)"
proof (intro conjI impI)
  show "GetArrayIndex c guest_pc < TOTAL_SLOT_COUNT c"
    using unat_GetArrayIndex_less [OF assms] by (simp add: word_less_nat_alt)
next
  assume len: "length (m_slots l) = unat (TOTAL_SLOT_COUNT c)"
  have "unat (GetArrayIndex c guest_pc) < length (m_slots l)"
    using unat_GetArrayIndex_less [OF assms, of guest_pc] len by simp
  then show "SetBlockPointer c guest_pc f l \<noteq> Inl SlotIndexOutOfBounds"
    by (simp add: SetBlockPointer_def Let_def)
next
  assume len: "length (m_slots l) = unat (TOTAL_SLOT_COUNT c)"
  have "unat (GetArrayIndex c (regs_pc cpu)) < length (m_slots l)"
    using unat_GetArrayIndex_less [OF assms, of "regs_pc cpu"] len by simp
  then show "Dispatch c l cpu \<noteq> Inl SlotIndexOutOfBounds"
    by (simp add: Dispatch_def Let_def split: option.splits)
qed

theorem GetArrayIndex_in_bounds_witness:
  "masks_fit psx_constants
   \<and> outside_RAM_and_BIOS psx_constants 0x1F000000
   \<and> GetArrayIndex psx_constants 0x1F000000 < TOTAL_SLOT_COUNT psx_constants
   \<and> length (m_slots (new_BlockFunctionLookup psx_constants :: unit BlockFunctionLookup))
       = unat (TOTAL_SLOT_COUNT psx_constants)
   \<and> SetBlockPointer psx_constants 0x1F000000 None
        (new_BlockFunctionLookup psx_constants :: unit BlockFunctionLookup)
        \<noteq> Inl SlotIndexOutOfBounds
   \<and> Dispatch psx_constants (new_BlockFunctionLookup psx_constants) \<lparr> regs_pc = 0x1F000000 \<rparr>
        \<noteq> Inl SlotIndexOutOfBounds"
proof -
  have o: "outside_RAM_and_BIOS psx_constants 0x1F000000"
    by (simp add: outside_RAM_and_BIOS_def psx_constants_def)
  have len: "length (m_slots (new_BlockFunctionLookup psx_constants :: unit BlockFunctionLookup))
        = unat (TOTAL_SLOT_COUNT psx_constants)"
    by (simp add: new_BlockFunctionLookup_def)
  show ?thesis
    using GetArrayIndex_in_bounds [OF masks_fit_psx, of "0x1F000000"
        "new_BlockFunctionLookup psx_constants :: unit BlockFunctionLookup" None
        "\<lparr> regs_pc = 0x1F000000 \<rparr>"]
      masks_fit_psx o len
    by simp
qed

section \<open>The dispatch table: Reset, SetBlockPointer, Dispatch\<close>

lemma Dispatch_calls_slot:
  assumes "masks_fit c" and "length (m_slots l) = unat (TOTAL_SLOT_COUNT c)"
  shows "Dispatch c l cpu =
    (case m_slots l ! unat (GetArrayIndex c (regs_pc cpu)) of
       None \<Rightarrow> Inl NullFunctionCall | Some f \<Rightarrow> Inr (f cpu))"
proof -
  have "unat (GetArrayIndex c (regs_pc cpu)) < length (m_slots l)"
    using unat_GetArrayIndex_less [OF assms(1), of "regs_pc cpu"] assms(2) by simp
  then show ?thesis by (simp add: Dispatch_def Let_def)
qed

lemma SetBlockPointer_writes_slot:
  assumes "masks_fit c" and "length (m_slots l) = unat (TOTAL_SLOT_COUNT c)"
  shows "SetBlockPointer c guest_pc f l =
    Inr (l\<lparr> m_slots := (m_slots l)[unat (GetArrayIndex c guest_pc) := f] \<rparr>)"
proof -
  have "unat (GetArrayIndex c guest_pc) < length (m_slots l)"
    using unat_GetArrayIndex_less [OF assms(1), of guest_pc] assms(2) by simp
  then show ?thesis by (simp add: SetBlockPointer_def Let_def)
qed

lemma GetArrayIndex_psx_0x1F000000: "GetArrayIndex psx_constants 0x1F000000 = 0"
  by (simp add: GetArrayIndex_def psx_constants_def)

lemma outside_psx_0x1F000000: "outside_RAM_and_BIOS psx_constants 0x1F000000"
  by (simp add: outside_RAM_and_BIOS_def psx_constants_def)

text \<open>
  Claim C4. After \<open>Reset f\<close> the table has as many slots as before and every one of
  them holds \<open>f\<close>; for a table of \<open>TOTAL_SLOT_COUNT\<close> slots, a \<open>Dispatch\<close> that
  follows, at any PC, calls \<open>f\<close> on the CPU (a call through the null pointer when \<open>f\<close>
  is null).
\<close>

theorem Reset_fills_every_slot:
  "length (m_slots (Reset f l)) = length (m_slots l)
   \<and> (\<forall>i < length (m_slots l). m_slots (Reset f l) ! i = f)
   \<and> (masks_fit c \<and> length (m_slots l) = unat (TOTAL_SLOT_COUNT c) \<longrightarrow>
        (\<forall>i < unat (TOTAL_SLOT_COUNT c). m_slots (Reset f l) ! i = f)
        \<and> Dispatch c (Reset f l) cpu =
            (case f of None \<Rightarrow> Inl NullFunctionCall | Some g \<Rightarrow> Inr (g cpu)))"
proof (intro conjI impI allI)
  show "length (m_slots (Reset f l)) = length (m_slots l)" by (simp add: Reset_def)
next
  fix i assume "i < length (m_slots l)"
  then show "m_slots (Reset f l) ! i = f" by (simp add: Reset_def)
next
  fix i assume "masks_fit c \<and> length (m_slots l) = unat (TOTAL_SLOT_COUNT c)"
    and "i < unat (TOTAL_SLOT_COUNT c)"
  then show "m_slots (Reset f l) ! i = f" by (simp add: Reset_def)
next
  assume h: "masks_fit c \<and> length (m_slots l) = unat (TOTAL_SLOT_COUNT c)"
  then have len: "length (m_slots (Reset f l)) = unat (TOTAL_SLOT_COUNT c)"
    by (simp add: Reset_def)
  have i: "unat (GetArrayIndex c (regs_pc cpu)) < length (m_slots l)"
    using unat_GetArrayIndex_less [of c "regs_pc cpu"] h by simp
  from h have "Dispatch c (Reset f l) cpu =
    (case m_slots (Reset f l) ! unat (GetArrayIndex c (regs_pc cpu)) of
       None \<Rightarrow> Inl NullFunctionCall | Some g \<Rightarrow> Inr (g cpu))"
    by (simp only: Dispatch_calls_slot [OF _ len])
  also from i have "m_slots (Reset f l) ! unat (GetArrayIndex c (regs_pc cpu)) = f"
    by (simp add: Reset_def)
  finally show "Dispatch c (Reset f l) cpu =
            (case f of None \<Rightarrow> Inl NullFunctionCall | Some g \<Rightarrow> Inr (g cpu))" .
qed

theorem Reset_fills_every_slot_witness:
  "masks_fit psx_constants
   \<and> length (m_slots (new_BlockFunctionLookup psx_constants :: unit BlockFunctionLookup))
        = unat (TOTAL_SLOT_COUNT psx_constants)
   \<and> (655359 :: nat) < unat (TOTAL_SLOT_COUNT psx_constants)
   \<and> m_slots (Reset (Some step_pc)
         (new_BlockFunctionLookup psx_constants :: unit BlockFunctionLookup)) ! 655359
        = Some step_pc
   \<and> Dispatch psx_constants (Reset (Some step_pc) (new_BlockFunctionLookup psx_constants))
        \<lparr> regs_pc = 0xBFC00000 \<rparr> = Inr \<lparr> regs_pc = 0xBFC00004 \<rparr>"
proof -
  let ?l = "new_BlockFunctionLookup psx_constants :: unit BlockFunctionLookup"
  have len: "length (m_slots ?l) = unat (TOTAL_SLOT_COUNT psx_constants)"
    by (simp add: new_BlockFunctionLookup_def)
  have i: "(655359 :: nat) < unat (TOTAL_SLOT_COUNT psx_constants)"
    by (simp add: TOTAL_SLOT_COUNT_psx)
  note t = Reset_fills_every_slot [of "Some step_pc" ?l psx_constants
      "\<lparr> regs_pc = 0xBFC00000 \<rparr>"]
  from t [THEN conjunct2, THEN conjunct2] masks_fit_psx len i
  have "m_slots (Reset (Some step_pc) ?l) ! 655359 = Some step_pc" by blast
  moreover from t [THEN conjunct2, THEN conjunct2] masks_fit_psx len
  have "Dispatch psx_constants (Reset (Some step_pc) ?l) \<lparr> regs_pc = 0xBFC00000 \<rparr>
      = Inr \<lparr> regs_pc = 0xBFC00004 \<rparr>" by (simp add: step_pc_def)
  ultimately show ?thesis using masks_fit_psx len i by simp
qed

text \<open>
  Claim C5. On a table of \<open>TOTAL_SLOT_COUNT\<close> slots \<open>SetBlockPointer guest_pc f\<close>
  succeeds; afterwards the slot at \<open>GetArrayIndex guest_pc\<close> holds \<open>f\<close>, every other
  slot is as before, and \<open>Dispatch\<close> on a CPU whose PC has the same slot index calls
  \<open>f\<close> on that CPU.
\<close>

theorem SetBlockPointer_frame:
  assumes "masks_fit c" and "length (m_slots l) = unat (TOTAL_SLOT_COUNT c)"
  shows "case SetBlockPointer c guest_pc f l of
           Inl e \<Rightarrow> False
         | Inr l' \<Rightarrow>
             length (m_slots l') = length (m_slots l)
             \<and> m_slots l' ! unat (GetArrayIndex c guest_pc) = f
             \<and> (\<forall>j < length (m_slots l).
                   j \<noteq> unat (GetArrayIndex c guest_pc) \<longrightarrow> m_slots l' ! j = m_slots l ! j)
             \<and> (\<forall>cpu. GetArrayIndex c (regs_pc cpu) = GetArrayIndex c guest_pc \<longrightarrow>
                   Dispatch c l' cpu =
                     (case f of None \<Rightarrow> Inl NullFunctionCall | Some g \<Rightarrow> Inr (g cpu)))"
proof -
  let ?i = "unat (GetArrayIndex c guest_pc)"
  let ?l' = "l\<lparr> m_slots := (m_slots l)[?i := f] \<rparr>"
  have i: "?i < length (m_slots l)"
    using unat_GetArrayIndex_less [OF assms(1), of guest_pc] assms(2) by simp
  have len': "length (m_slots ?l') = unat (TOTAL_SLOT_COUNT c)" using assms(2) by simp
  have d: "Dispatch c ?l' cpu =
      (case f of None \<Rightarrow> Inl NullFunctionCall | Some g \<Rightarrow> Inr (g cpu))"
    if "GetArrayIndex c (regs_pc cpu) = GetArrayIndex c guest_pc" for cpu
    using that i by (simp add: Dispatch_calls_slot [OF assms(1) len'])
  have "SetBlockPointer c guest_pc f l = Inr ?l'"
    by (rule SetBlockPointer_writes_slot [OF assms])
  with i d show ?thesis by simp
qed

theorem SetBlockPointer_frame_witness:
  "masks_fit psx_constants
   \<and> length (m_slots (new_BlockFunctionLookup psx_constants :: unit BlockFunctionLookup))
        = unat (TOTAL_SLOT_COUNT psx_constants)
   \<and> (case SetBlockPointer psx_constants 0x80010000 (Some step_pc)
             (new_BlockFunctionLookup psx_constants :: unit BlockFunctionLookup) of
         Inl e \<Rightarrow> False
       | Inr l' \<Rightarrow>
           m_slots l' ! 16384 = Some step_pc
           \<and> m_slots l' ! 16385 = None
           \<and> Dispatch psx_constants l' \<lparr> regs_pc = 0x00010000 \<rparr>
               = Inr \<lparr> regs_pc = 0x00010004 \<rparr>)"
proof -
  let ?l = "new_BlockFunctionLookup psx_constants :: unit BlockFunctionLookup"
  have len: "length (m_slots ?l) = unat (TOTAL_SLOT_COUNT psx_constants)"
    by (simp add: new_BlockFunctionLookup_def)
  have a: "GetArrayIndex psx_constants 0x80010000 = 16384"
    by (simp add: GetArrayIndex_def psx_constants_def RAM_SLOT_COUNT_def)
  have b: "GetArrayIndex psx_constants 0x00010000 = 16384"
    by (simp add: GetArrayIndex_def psx_constants_def RAM_SLOT_COUNT_def)
  have n: "m_slots ?l ! 16385 = None"
    by (simp add: new_BlockFunctionLookup_def TOTAL_SLOT_COUNT_psx)
  have j: "(16385 :: nat) < length (m_slots ?l)"
    by (simp add: new_BlockFunctionLookup_def TOTAL_SLOT_COUNT_psx)
  from SetBlockPointer_frame [OF masks_fit_psx len, of "0x80010000" "Some step_pc"]
  show ?thesis
    using masks_fit_psx len a b n j
    by (auto simp add: step_pc_def split: sum.splits)
qed

text \<open>
  Claim C2, as the code has it. \<open>Dispatch\<close> has no error to report: for every PC,
  also one whose physical address is outside RAM and BIOS, \<open>GetArrayIndex\<close> masks the
  PC to a slot of the table and \<open>Dispatch\<close> calls what that slot holds. It never
  yields \<open>InvalidDispatchTarget\<close>, and it only reads the table.
\<close>

theorem Dispatch_masks_any_pc_into_a_slot:
  assumes "masks_fit c" and "length (m_slots l) = unat (TOTAL_SLOT_COUNT c)"
  shows "Dispatch c l cpu \<noteq> Inl InvalidDispatchTarget
     \<and> unat (GetArrayIndex c (regs_pc cpu)) < length (m_slots l)
     \<and> Dispatch c l cpu =
         (case m_slots l ! unat (GetArrayIndex c (regs_pc cpu)) of
            None \<Rightarrow> Inl NullFunctionCall | Some f \<Rightarrow> Inr (f cpu))"
proof -
  have i: "unat (GetArrayIndex c (regs_pc cpu)) < length (m_slots l)"
    using unat_GetArrayIndex_less [OF assms(1), of "regs_pc cpu"] assms(2) by simp
  have d: "Dispatch c l cpu =
         (case m_slots l ! unat (GetArrayIndex c (regs_pc cpu)) of
            None \<Rightarrow> Inl NullFunctionCall | Some f \<Rightarrow> Inr (f cpu))"
    by (rule Dispatch_calls_slot [OF assms])
  then have "Dispatch c l cpu \<noteq> Inl InvalidDispatchTarget"
    by (simp split: option.splits)
  with i d show ?thesis by simp
qed

theorem Dispatch_masks_any_pc_into_a_slot_witness:
  "masks_fit psx_constants
   \<and> length (m_slots (Reset (Some step_pc)
        (new_BlockFunctionLookup psx_constants :: unit BlockFunctionLookup)))
       = unat (TOTAL_SLOT_COUNT psx_constants)
   \<and> outside_RAM_and_BIOS psx_constants 0x1F000000
   \<and> Dispatch psx_constants (Reset (Some step_pc) (new_BlockFunctionLookup psx_constants))
        \<lparr> regs_pc = 0x1F000000 \<rparr> \<noteq> Inl InvalidDispatchTarget
   \<and> Dispatch psx_constants (Reset (Some step_pc) (new_BlockFunctionLookup psx_constants))
        \<lparr> regs_pc = 0x1F000000 \<rparr> =
       (case m_slots (Reset (Some step_pc)
               (new_BlockFunctionLookup psx_constants :: unit BlockFunctionLookup)) ! 0 of
          None \<Rightarrow> Inl NullFunctionCall | Some f \<Rightarrow> Inr (f \<lparr> regs_pc = 0x1F000000 \<rparr>))"
proof -
  let ?l = "Reset (Some step_pc)
      (new_BlockFunctionLookup psx_constants :: unit BlockFunctionLookup)"
  have len: "length (m_slots ?l) = unat (TOTAL_SLOT_COUNT psx_constants)"
    by (simp add: Reset_def new_BlockFunctionLookup_def)
  note t = Dispatch_masks_any_pc_into_a_slot [OF masks_fit_psx len,
      of "\<lparr> regs_pc = 0x1F000000 \<rparr>"]
  have g: "unat (GetArrayIndex psx_constants (regs_pc \<lparr> regs_pc = 0x1F000000 \<rparr>)) = 0"
    by (simp add: GetArrayIndex_psx_0x1F000000)
  from t [THEN conjunct1] t [THEN conjunct2, THEN conjunct2, unfolded g]
    masks_fit_psx len outside_psx_0x1F000000
  show ?thesis by blast
qed

text \<open>
  The claim as written fails at PC \<^verbatim>\<open>0x1F000000\<close>, whose physical address is in neither
  range: on a table reset to \<open>step_pc\<close>, \<open>Dispatch\<close> calls slot 0 and returns the CPU
  that \<open>step_pc\<close> leaves, with no error.
\<close>

theorem Dispatch_outside_RAM_and_BIOS_counterexample:
  "outside_RAM_and_BIOS psx_constants 0x1F000000
   \<and> Dispatch psx_constants
        (Reset (Some step_pc) (new_BlockFunctionLookup psx_constants :: unit BlockFunctionLookup))
        \<lparr> regs_pc = 0x1F000000 \<rparr>
       = Inr \<lparr> regs_pc = 0x1F000004 \<rparr>
   \<and> Dispatch psx_constants
        (Reset (Some step_pc) (new_BlockFunctionLookup psx_constants :: unit BlockFunctionLookup))
        \<lparr> regs_pc = 0x1F000000 \<rparr>
       \<noteq> Inl InvalidDispatchTarget"
proof -
  have "m_slots (Reset (Some step_pc)
          (new_BlockFunctionLookup psx_constants :: unit BlockFunctionLookup)) ! 0 = Some step_pc"
    by (simp add: Reset_def new_BlockFunctionLookup_def TOTAL_SLOT_COUNT_psx)
  moreover have "(0::nat) < length (m_slots (Reset (Some step_pc)
          (new_BlockFunctionLookup psx_constants :: unit BlockFunctionLookup)))"
    by (simp add: Reset_def new_BlockFunctionLookup_def TOTAL_SLOT_COUNT_psx)
  ultimately show ?thesis
    using outside_psx_0x1F000000
    by (simp add: Dispatch_def GetArrayIndex_psx_0x1F000000 step_pc_def)
qed

section \<open>CodeBlock: size, pages, RAM\<close>

lemma unat_GetSizeInBytes_mod:
  "unat (GetSizeInBytes b) = (length (instructions b) * sizeof_Instruction) mod 2 ^ 32"
proof -
  have "GetSizeInBytes b = word_of_nat (length (instructions b) * sizeof_Instruction)"
    by (simp add: GetSizeInBytes_def)
  then show ?thesis by (simp only: unat_of_nat) simp
qed

lemma unat_GetSizeInBytes:
  "length (instructions b) < 2 ^ 30 \<Longrightarrow> unat (GetSizeInBytes b) = length (instructions b) * 4"
  by (simp add: unat_GetSizeInBytes_mod sizeof_Instruction_def)

text \<open>
  Claim C7. \<open>GetSizeInBytes\<close> is the instruction count times the instruction width of
  4 bytes, as a \<^verbatim>\<open>u32\<close>; read as a number it is that product for every block of fewer
  than \<open>2 ^ 30\<close> instructions (above that the product does not fit 32 bits).
\<close>

theorem GetSizeInBytes_is_count_times_width:
  "sizeof_Instruction = 4
   \<and> GetSizeInBytes b = word_of_nat (length (instructions b) * sizeof_Instruction)
   \<and> (length (instructions b) < 2 ^ 30 \<longrightarrow>
        unat (GetSizeInBytes b) = length (instructions b) * sizeof_Instruction)"
proof (intro conjI impI)
  show "sizeof_Instruction = 4" by (simp add: sizeof_Instruction_def)
next
  show "GetSizeInBytes b = word_of_nat (length (instructions b) * sizeof_Instruction)"
    by (simp add: GetSizeInBytes_def)
next
  assume "length (instructions b) < 2 ^ 30"
  then show "unat (GetSizeInBytes b) = length (instructions b) * sizeof_Instruction"
    by (simp add: unat_GetSizeInBytes sizeof_Instruction_def)
qed

theorem GetSizeInBytes_is_count_times_width_witness:
  "length (instructions ((new_CodeBlock (CodeBlockKey 0x1000) :: unit CodeBlock)
      \<lparr> instructions := [nop, nop, nop] \<rparr>)) < 2 ^ 30
   \<and> GetSizeInBytes ((new_CodeBlock (CodeBlockKey 0x1000) :: unit CodeBlock)
      \<lparr> instructions := [nop, nop, nop] \<rparr>) = 12"
proof -
  let ?b = "(new_CodeBlock (CodeBlockKey 0x1000) :: unit CodeBlock)
      \<lparr> instructions := [nop, nop, nop] \<rparr>"
  have len: "length (instructions ?b) < 2 ^ 30" by simp
  from GetSizeInBytes_is_count_times_width [of ?b]
  have "GetSizeInBytes ?b = 12" by (simp add: sizeof_Instruction_def)
  with len show ?thesis by simp
qed

text \<open>
  Claim C8. \<open>IsInRAM\<close> holds exactly when the physical address of the key is below the
  literal \<^verbatim>\<open>0x200000\<close>, whatever the configured \<open>RAM_SIZE\<close> is.
\<close>

theorem IsInRAM_literal_bound:
  "IsInRAM (c\<lparr> RAM_SIZE := r \<rparr>) b \<longleftrightarrow> unat (GetPCPhysicalAddress c (key b)) < 0x200000"
  by (simp add: IsInRAM_def GetPCPhysicalAddress_def word_less_nat_alt)

lemma page_boundary_div:
  fixes m P :: nat
  assumes "0 < P" "0 < m" "m mod P = 0"
  shows "(m - 1) div P + 1 = m div P"
proof -
  from assms(3) obtain q where q: "m = P * q" by auto
  with assms(2) have "0 < q" by (cases q) auto
  then obtain q' where q': "q = Suc q'" by (cases q) auto
  have "m - 1 = (P - 1) + q' * P" using q q' assms(1) by (simp add: algebra_simps)
  then have "(m - 1) div P = (P - 1) div P + q'" by (simp only: div_mult_self1 [OF less_imp_neq[OF assms(1), symmetric]])
  moreover have "(P - 1) div P = 0" using assms(1) by simp
  ultimately have "(m - 1) div P = q'" by simp
  moreover have "m div P = q" using q assms(1) by simp
  ultimately show ?thesis using q' by simp
qed

lemma unat_end_address:
  assumes "end_byte c b < 2 ^ 32"
  shows "unat (GetPCPhysicalAddress c (key b) + GetSizeInBytes b) = end_byte c b"
proof -
  from assms have n: "length (instructions b) < 2 ^ 30"
    by (simp add: end_byte_def sizeof_Instruction_def)
  have s: "unat (GetSizeInBytes b) = length (instructions b) * 4"
    by (rule unat_GetSizeInBytes [OF n])
  with assms have "unat (GetPCPhysicalAddress c (key b)) + unat (GetSizeInBytes b) < 2 ^ LENGTH(32)"
    by (simp add: end_byte_def first_byte_def sizeof_Instruction_def)
  then have "unat (GetPCPhysicalAddress c (key b) + GetSizeInBytes b)
      = unat (GetPCPhysicalAddress c (key b)) + unat (GetSizeInBytes b)"
    by (simp only: unat_add_lem [THEN iffD1])
  with s show ?thesis by (simp add: end_byte_def first_byte_def sizeof_Instruction_def)
qed

lemma unat_GetEndPageIndex:
  assumes "end_byte c b < 2 ^ 32"
  shows "unat (GetEndPageIndex c b) = end_byte c b div unat (CPU_CODE_CACHE_PAGE_SIZE c)"
  unfolding GetEndPageIndex_def by (simp only: unat_div unat_end_address [OF assms])

lemma unat_GetStartPageIndex:
  "unat (GetStartPageIndex c b) = first_byte c b div unat (CPU_CODE_CACHE_PAGE_SIZE c)"
  unfolding GetStartPageIndex_def first_byte_def by (simp only: unat_div)

text \<open>
  Claim C10. \<open>GetEndPageIndex\<close> is the physical address plus \<open>GetSizeInBytes\<close>,
  divided by the page size. So an empty block starts and ends in the same page index; and
  for a non-empty block whose byte range ends on a page boundary (within the 32-bit
  address space), \<open>GetEndPageIndex\<close> is one more than the page of the block's last byte.
\<close>

theorem GetEndPageIndex_one_past_on_boundary:
  "GetEndPageIndex c b
     = (GetPCPhysicalAddress c (key b) + GetSizeInBytes b) div CPU_CODE_CACHE_PAGE_SIZE c
   \<and> (instructions b = [] \<longrightarrow> GetStartPageIndex c b = GetEndPageIndex c b)
   \<and> (instructions b \<noteq> [] \<and> CPU_CODE_CACHE_PAGE_SIZE c \<noteq> 0 \<and> end_byte c b < 2 ^ 32
        \<and> end_byte c b mod unat (CPU_CODE_CACHE_PAGE_SIZE c) = 0 \<longrightarrow>
      unat (GetEndPageIndex c b)
        = (end_byte c b - 1) div unat (CPU_CODE_CACHE_PAGE_SIZE c) + 1)"
proof (intro conjI impI)
  show "GetEndPageIndex c b
     = (GetPCPhysicalAddress c (key b) + GetSizeInBytes b) div CPU_CODE_CACHE_PAGE_SIZE c"
    by (simp add: GetEndPageIndex_def)
next
  assume "instructions b = []"
  then show "GetStartPageIndex c b = GetEndPageIndex c b"
    by (simp add: GetStartPageIndex_def GetEndPageIndex_def GetSizeInBytes_def)
next
  assume h: "instructions b \<noteq> [] \<and> CPU_CODE_CACHE_PAGE_SIZE c \<noteq> 0 \<and> end_byte c b < 2 ^ 32
        \<and> end_byte c b mod unat (CPU_CODE_CACHE_PAGE_SIZE c) = 0"
  then have P: "0 < unat (CPU_CODE_CACHE_PAGE_SIZE c)" by (simp add: unat_gt_0)
  from h have m: "0 < end_byte c b" by (simp add: end_byte_def sizeof_Instruction_def)
  from h have "unat (GetEndPageIndex c b) = end_byte c b div unat (CPU_CODE_CACHE_PAGE_SIZE c)"
    by (simp add: unat_GetEndPageIndex)
  also have "\<dots> = (end_byte c b - 1) div unat (CPU_CODE_CACHE_PAGE_SIZE c) + 1"
    using page_boundary_div [OF P m] h by simp
  finally show "unat (GetEndPageIndex c b)
        = (end_byte c b - 1) div unat (CPU_CODE_CACHE_PAGE_SIZE c) + 1" .
qed

lemma GetPCPhysicalAddress_GetPC:
  "GetPCPhysicalAddress c k = GetPC k AND PHYSICAL_MEMORY_ADDRESS_MASK c"
  by (simp add: GetPCPhysicalAddress_def GetPC_def)

lemma GetPCPhysicalAddress_psx_0x13F8:
  "GetPCPhysicalAddress psx_constants (CodeBlockKey 0x800013F8) = 0x13F8"
  by (simp add: GetPCPhysicalAddress_def psx_constants_def aligned_pc_def
      BitField_GetValue_def BitField_GetMask_aligned_pc)

theorem GetEndPageIndex_one_past_on_boundary_witness:
  "instructions boundary_block \<noteq> []
   \<and> CPU_CODE_CACHE_PAGE_SIZE psx_constants \<noteq> 0
   \<and> end_byte psx_constants boundary_block = 0x1400
   \<and> (0x1400 :: nat) mod unat (CPU_CODE_CACHE_PAGE_SIZE psx_constants) = 0
   \<and> (0x13FF :: nat) div unat (CPU_CODE_CACHE_PAGE_SIZE psx_constants) = 4
   \<and> GetEndPageIndex psx_constants boundary_block = 5
   \<and> instructions empty_block = []
   \<and> GetStartPageIndex psx_constants empty_block = GetEndPageIndex psx_constants empty_block"
proof -
  have k: "key boundary_block = CodeBlockKey 0x800013F8"
    by (simp add: boundary_block_def empty_block_def new_CodeBlock_def)
  have i: "instructions boundary_block \<noteq> []" by (simp add: boundary_block_def)
  have n: "length (instructions boundary_block) = 2" by (simp add: boundary_block_def)
  have p: "CPU_CODE_CACHE_PAGE_SIZE psx_constants = 1024" by (simp add: psx_constants_def)
  have e: "end_byte psx_constants boundary_block = 0x1400"
    by (simp add: end_byte_def first_byte_def k n GetPCPhysicalAddress_psx_0x13F8
        sizeof_Instruction_def)
  have ie: "instructions empty_block = []" by (simp add: empty_block_def new_CodeBlock_def)
  note t = GetEndPageIndex_one_past_on_boundary [of psx_constants boundary_block]
  from t [THEN conjunct2, THEN conjunct2] i p e
  have "unat (GetEndPageIndex psx_constants boundary_block) = 5" by simp
  from this [THEN arg_cong [where f = "word_of_nat :: nat \<Rightarrow> u32"]]
  have "GetEndPageIndex psx_constants boundary_block = 5" by simp
  moreover
  note t' = GetEndPageIndex_one_past_on_boundary [of psx_constants empty_block]
  from t' [THEN conjunct2, THEN conjunct1] ie
  have "GetStartPageIndex psx_constants empty_block = GetEndPageIndex psx_constants empty_block"
    by blast
  ultimately show ?thesis using i p e ie by simp
qed

section \<open>Invalidation of a page: every block of the page is invalidated and unlinked\<close>

lemma block_kept_refl: "block_kept b b"
  by (simp add: block_kept_def)

lemma block_kept_trans: "block_kept b1 b2 \<Longrightarrow> block_kept b2 b3 \<Longrightarrow> block_kept b1 b3"
  by (auto simp add: block_kept_def)

lemma only_unlinks_refl: "only_unlinks h h"
  by (simp add: only_unlinks_def block_kept_refl split: option.splits)

lemma only_unlinks_trans:
  assumes "only_unlinks h1 h2" and "only_unlinks h2 h3"
  shows "only_unlinks h1 h3"
  unfolding only_unlinks_def
proof
  fix q
  from assms(1) have a: "case h1 q of None \<Rightarrow> h2 q = None
      | Some b \<Rightarrow> (case h2 q of None \<Rightarrow> False | Some b' \<Rightarrow> block_kept b b')"
    unfolding only_unlinks_def by blast
  from assms(2) have b: "case h2 q of None \<Rightarrow> h3 q = None
      | Some b \<Rightarrow> (case h3 q of None \<Rightarrow> False | Some b' \<Rightarrow> block_kept b b')"
    unfolding only_unlinks_def by blast
  from a b show "case h1 q of None \<Rightarrow> h3 q = None
      | Some b \<Rightarrow> (case h3 q of None \<Rightarrow> False | Some b' \<Rightarrow> block_kept b b')"
    by (auto split: option.splits intro: block_kept_trans)
qed

lemma only_unlinks_erase_link_successor: "only_unlinks h (erase_link_successor p q h)"
  by (auto simp add: only_unlinks_def block_kept_def erase_link_successor_def split: option.splits)

lemma only_unlinks_erase_link_predecessor: "only_unlinks h (erase_link_predecessor p q h)"
  by (auto simp add: only_unlinks_def block_kept_def erase_link_predecessor_def split: option.splits)

lemma only_unlinks_clear_links: "only_unlinks h (clear_links p h)"
  by (auto simp add: only_unlinks_def block_kept_def clear_links_def split: option.splits)

lemma only_unlinks_mark_invalidated: "only_unlinks h (mark_invalidated p h)"
  by (auto simp add: only_unlinks_def block_kept_def mark_invalidated_def split: option.splits)

lemma only_unlinks_fold:
  assumes "\<And>x h. only_unlinks h (f x h)"
  shows "only_unlinks h (fold f xs h)"
proof (induction xs arbitrary: h)
  case Nil
  show ?case by (simp add: only_unlinks_refl)
next
  case (Cons x xs)
  have "only_unlinks h (f x h)" by (rule assms)
  moreover have "only_unlinks (f x h) (fold f xs (f x h))" by (rule Cons.IH)
  ultimately show ?case by (simp add: only_unlinks_trans)
qed

lemma only_unlinks_UnlinkBlock: "only_unlinks h (UnlinkBlock p h)"
proof (cases "h p")
  case None
  then show ?thesis by (simp add: UnlinkBlock_def only_unlinks_refl)
next
  case (Some b)
  let ?h1 = "fold (erase_link_successor p) (link_predecessors b) h"
  let ?h2 = "fold (erase_link_predecessor p) (link_successors b) ?h1"
  have "only_unlinks h ?h1"
    by (rule only_unlinks_fold) (rule only_unlinks_erase_link_successor)
  moreover have "only_unlinks ?h1 ?h2"
    by (rule only_unlinks_fold) (rule only_unlinks_erase_link_predecessor)
  moreover have "only_unlinks ?h2 (clear_links p ?h2)" by (rule only_unlinks_clear_links)
  ultimately have "only_unlinks h (clear_links p ?h2)" by (blast intro: only_unlinks_trans)
  with Some show ?thesis by (simp add: UnlinkBlock_def)
qed

lemma only_unlinks_invalidate_step: "only_unlinks h (UnlinkBlock p (mark_invalidated p h))"
  by (blast intro: only_unlinks_trans only_unlinks_mark_invalidated only_unlinks_UnlinkBlock)

lemma only_unlinks_Some:
  assumes "only_unlinks h h'" and "h p = Some b"
  obtains b' where "h' p = Some b'" "block_kept b b'"
proof -
  from assms(1) have "case h p of None \<Rightarrow> h' p = None
      | Some b \<Rightarrow> (case h' p of None \<Rightarrow> False | Some b' \<Rightarrow> block_kept b b')"
    unfolding only_unlinks_def by blast
  with assms(2) that show thesis by (auto split: option.splits)
qed

lemma invalidated_and_unlinked_kept:
  assumes "only_unlinks h h'" and "invalidated_and_unlinked h p"
  shows "invalidated_and_unlinked h' p"
proof -
  from assms(2) obtain b where b: "h p = Some b" "invalidated b"
      "link_predecessors b = []" "link_successors b = []"
    by (auto simp add: invalidated_and_unlinked_def split: option.splits)
  from only_unlinks_Some [OF assms(1) b(1)] obtain b' where
    "h' p = Some b'" "block_kept b b'" by blast
  with b show ?thesis by (simp add: invalidated_and_unlinked_def block_kept_def)
qed

lemma clear_links_unlinked:
  assumes "h p = Some b" and "invalidated b"
  shows "invalidated_and_unlinked (clear_links p h) p"
  using assms by (simp add: invalidated_and_unlinked_def clear_links_def)

lemma invalidate_step_unlinked:
  assumes "h p = Some b"
  shows "invalidated_and_unlinked (UnlinkBlock p (mark_invalidated p h)) p"
proof -
  let ?h0 = "mark_invalidated p h"
  let ?b0 = "b\<lparr> invalidated := True \<rparr>"
  from assms have h0: "?h0 p = Some ?b0" by (simp add: mark_invalidated_def)
  let ?h1 = "fold (erase_link_successor p) (link_predecessors ?b0) ?h0"
  let ?h2 = "fold (erase_link_predecessor p) (link_successors ?b0) ?h1"
  have "only_unlinks ?h0 ?h1"
    by (rule only_unlinks_fold) (rule only_unlinks_erase_link_successor)
  moreover have "only_unlinks ?h1 ?h2"
    by (rule only_unlinks_fold) (rule only_unlinks_erase_link_predecessor)
  ultimately have "only_unlinks ?h0 ?h2" by (rule only_unlinks_trans)
  from only_unlinks_Some [OF this h0] obtain b2 where
    b2: "?h2 p = Some b2" "block_kept ?b0 b2" by blast
  then have "invalidated b2" by (simp add: block_kept_def)
  with b2(1) have "invalidated_and_unlinked (clear_links p ?h2) p"
    by (rule clear_links_unlinked)
  with h0 show ?thesis by (simp add: UnlinkBlock_def)
qed

lemma invalidate_fold_unlinked:
  assumes "p \<in> set ps" and "h p = Some b"
  shows "invalidated_and_unlinked
           (fold (\<lambda>p h. UnlinkBlock p (mark_invalidated p h)) ps h) p"
  using assms
proof (induction ps arbitrary: h b)
  case Nil
  then show ?case by simp
next
  case (Cons x xs)
  let ?step = "\<lambda>p h. UnlinkBlock p (mark_invalidated p h)"
  let ?h1 = "?step x h"
  have u: "only_unlinks h ?h1" by (rule only_unlinks_invalidate_step)
  show ?case
  proof (cases "p \<in> set xs")
    case True
    from only_unlinks_Some [OF u Cons.prems(2)] obtain b1 where "?h1 p = Some b1" by blast
    with True have "invalidated_and_unlinked (fold ?step xs ?h1) p" by (rule Cons.IH)
    then show ?thesis by simp
  next
    case False
    with Cons.prems(1) have "p = x" by simp
    with Cons.prems(2) have "invalidated_and_unlinked ?h1 p"
      by (simp add: invalidate_step_unlinked)
    moreover have "only_unlinks ?h1 (fold ?step xs ?h1)"
      by (rule only_unlinks_fold) (rule only_unlinks_invalidate_step)
    ultimately have "invalidated_and_unlinked (fold ?step xs ?h1) p"
      by (blast intro: invalidated_and_unlinked_kept)
    then show ?thesis by simp
  qed
qed

text \<open>
  A block with a byte in a page has that page within the span from \<open>GetStartPageIndex\<close>
  to \<open>GetEndPageIndex\<close> that the source computes for it.
\<close>

lemma block_overlaps_page_within_span:
  assumes "block_overlaps_page c b page"
    and "CPU_CODE_CACHE_PAGE_SIZE c \<noteq> 0" and "end_byte c b < 2 ^ 32"
  shows "GetStartPageIndex c b \<le> page \<and> page \<le> GetEndPageIndex c b"
proof -
  let ?P = "unat (CPU_CODE_CACHE_PAGE_SIZE c)"
  from assms(2) have P: "0 < ?P" by (simp add: unat_gt_0)
  from assms(1) have lo: "first_byte c b < (unat page + 1) * ?P"
    and hi: "unat page * ?P < end_byte c b"
    by (simp_all add: block_overlaps_page_def)
  from lo have "first_byte c b div ?P < unat page + 1"
    by (rule less_mult_imp_div_less)
  then have s: "unat (GetStartPageIndex c b) \<le> unat page"
    by (simp add: unat_GetStartPageIndex)
  from hi have "(unat page * ?P) div ?P \<le> end_byte c b div ?P"
    by (intro div_le_mono) simp
  with P have "unat page \<le> end_byte c b div ?P" by simp
  then have e: "unat page \<le> unat (GetEndPageIndex c b)"
    by (simp add: unat_GetEndPageIndex [OF assms(3)])
  from s e show ?thesis by (simp add: word_le_nat_alt)
qed

lemma end_byte_cong:
  "key b' = key b \<Longrightarrow> instructions b' = instructions b \<Longrightarrow> end_byte c b' = end_byte c b"
  by (simp add: end_byte_def first_byte_def)

lemma block_overlaps_page_cong:
  "key b' = key b \<Longrightarrow> instructions b' = instructions b \<Longrightarrow>
   block_overlaps_page c b' page = block_overlaps_page c b page"
  by (simp add: block_overlaps_page_def end_byte_def first_byte_def)

lemma block_overlaps_page_span_unat:
  assumes "block_overlaps_page c b page" and "end_byte c b < 2 ^ 32"
  shows "unat (GetStartPageIndex c b) \<le> unat page \<and> unat page \<le> unat (GetEndPageIndex c b)"
proof -
  from assms(1) have "first_byte c b < (unat page + 1) * unat (CPU_CODE_CACHE_PAGE_SIZE c)"
    by (simp add: block_overlaps_page_def)
  then have "unat (CPU_CODE_CACHE_PAGE_SIZE c) \<noteq> 0" by (cases "unat (CPU_CODE_CACHE_PAGE_SIZE c)") auto
  then have "CPU_CODE_CACHE_PAGE_SIZE c \<noteq> 0" by auto
  from block_overlaps_page_within_span [OF assms(1) this assms(2)]
  show ?thesis by (simp add: word_le_nat_alt)
qed

lemma same_code_refl: "same_code h h"
  by (simp add: same_code_def)

lemma only_unlinks_same_code:
  assumes "only_unlinks h h'"
  shows "same_code h h'"
  unfolding same_code_def
proof (intro allI impI)
  fix q b' assume h': "h' q = Some b'"
  from assms have "case h q of None \<Rightarrow> h' q = None
      | Some b \<Rightarrow> (case h' q of None \<Rightarrow> False | Some b' \<Rightarrow> block_kept b b')"
    unfolding only_unlinks_def by blast
  with h' show "\<exists>b. h q = Some b \<and> key b = key b' \<and> instructions b = instructions b'"
    by (auto simp add: block_kept_def split: option.splits)
qed

lemma page_map_covers_same_code:
  assumes "page_map_covers c s" and "same_code (store s) (store s')"
    and "m_blocks s' = m_blocks s" and "m_ram_block_map s' = m_ram_block_map s"
  shows "page_map_covers c s'"
  unfolding page_map_covers_def
proof (intro conjI allI impI)
  from assms(1,4) show "length (m_ram_block_map s') = unat (CPU_CODE_CACHE_PAGE_COUNT c)"
    by (simp add: page_map_covers_def)
next
  fix k p b' page
  assume h: "m_blocks s' k = Some p \<and> store s' p = Some b' \<and> end_byte c b' < 2 ^ 32
      \<and> unat page < length (m_ram_block_map s') \<and> block_overlaps_page c b' page"
  with assms(2) obtain b where b: "store s p = Some b" "key b = key b'"
      "instructions b = instructions b'"
    unfolding same_code_def by blast
  from b h have "end_byte c b < 2 ^ 32" "block_overlaps_page c b page"
    by (simp_all add: end_byte_cong [of b b'] block_overlaps_page_cong [of b b'])
  with assms(1,3,4) b(1) h have "p \<in> set (m_ram_block_map s ! unat page)"
    unfolding page_map_covers_def by auto
  with assms(4) show "p \<in> set (m_ram_block_map s' ! unat page)" by simp
qed

lemma page_map_covers_new: "page_map_covers c (new_CodeCache c)"
  by (simp add: page_map_covers_def new_CodeCache_def)

lemma nth_AddBlockToPageMap:
  assumes "store s p = Some b" and "page < length (m_ram_block_map s)"
  shows "m_ram_block_map (AddBlockToPageMap c p s) ! page =
    (if unat (GetStartPageIndex c b) \<le> page \<and> page \<le> unat (GetEndPageIndex c b)
     then m_ram_block_map s ! page @ [p] else m_ram_block_map s ! page)"
  using assms by (simp add: AddBlockToPageMap_def nth_enumerate_eq)

lemma length_AddBlockToPageMap:
  "length (m_ram_block_map (AddBlockToPageMap c p s)) = length (m_ram_block_map s)"
  by (simp add: AddBlockToPageMap_def split: option.splits)

lemma store_AddBlockToPageMap: "store (AddBlockToPageMap c p s) = store s"
  by (simp add: AddBlockToPageMap_def split: option.splits)

lemma m_blocks_AddBlockToPageMap: "m_blocks (AddBlockToPageMap c p s) = m_blocks s"
  by (simp add: AddBlockToPageMap_def split: option.splits)

lemma page_map_covers_CompileBlock:
  fixes s :: "'a CodeCache"
  assumes "page_map_covers c s"
  shows "page_map_covers c (CompileBlock c k instrs p s)"
proof -
  let ?nb = "(new_CodeBlock k :: 'a CodeBlock)\<lparr> instructions := instrs \<rparr>"
  let ?s1 = "s\<lparr> store := (store s)(p \<mapsto> ?nb), m_blocks := (m_blocks s)(bits k \<mapsto> p) \<rparr>"
  let ?s' = "AddBlockToPageMap c p ?s1"
  have s': "CompileBlock c k instrs p s = ?s'" by (simp add: CompileBlock_def)
  have st: "store ?s' = (store s)(p \<mapsto> ?nb)" by (simp add: store_AddBlockToPageMap)
  have mb: "m_blocks ?s' = (m_blocks s)(bits k \<mapsto> p)" by (simp add: m_blocks_AddBlockToPageMap)
  have len: "length (m_ram_block_map ?s') = length (m_ram_block_map s)"
    by (simp add: length_AddBlockToPageMap)
  have nth: "m_ram_block_map ?s' ! page =
      (if unat (GetStartPageIndex c ?nb) \<le> page \<and> page \<le> unat (GetEndPageIndex c ?nb)
       then m_ram_block_map s ! page @ [p] else m_ram_block_map s ! page)"
    if "page < length (m_ram_block_map s)" for page
  proof -
    have a1: "store ?s1 p = Some ?nb" by simp
    have e: "m_ram_block_map ?s1 = m_ram_block_map s" by simp
    from that have a2: "page < length (m_ram_block_map ?s1)" by simp
    show ?thesis using nth_AddBlockToPageMap [OF a1 a2, of c] unfolding e .
  qed
  have "page_map_covers c ?s'"
    unfolding page_map_covers_def
  proof (intro conjI allI impI)
    from assms len show "length (m_ram_block_map ?s') = unat (CPU_CODE_CACHE_PAGE_COUNT c)"
      by (simp add: page_map_covers_def)
  next
    fix k' p' b' page
    assume h: "m_blocks ?s' k' = Some p' \<and> store ?s' p' = Some b' \<and> end_byte c b' < 2 ^ 32
      \<and> unat page < length (m_ram_block_map ?s') \<and> block_overlaps_page c b' page"
    then have pg: "unat page < length (m_ram_block_map s)" using len by simp
    show "p' \<in> set (m_ram_block_map ?s' ! unat page)"
    proof (cases "p' = p")
      case True
      with h st have b': "b' = ?nb" by simp
      from h b' have "unat (GetStartPageIndex c ?nb) \<le> unat page
          \<and> unat page \<le> unat (GetEndPageIndex c ?nb)"
        using block_overlaps_page_span_unat [of c ?nb page] by simp
      with True show ?thesis by (simp add: nth [OF pg])
    next
      case False
      with h st have b: "store s p' = Some b'" by simp
      from False h mb have k: "m_blocks s k' = Some p'" by (auto split: if_splits)
      from assms k b h pg have "p' \<in> set (m_ram_block_map s ! unat page)"
        unfolding page_map_covers_def by blast
      then show ?thesis by (simp add: nth [OF pg])
    qed
  qed
  with s' show ?thesis by simp
qed

lemma same_code_LinkBlock: "same_code (store s) (store (LinkBlock pf pt s))"
  by (auto simp add: same_code_def LinkBlock_def Let_def split: option.splits if_splits)

lemma page_map_covers_LinkBlock:
  assumes "page_map_covers c s"
  shows "page_map_covers c (LinkBlock pf pt s)"
proof (rule page_map_covers_same_code [OF assms same_code_LinkBlock])
  show "m_blocks (LinkBlock pf pt s) = m_blocks s"
    by (simp add: LinkBlock_def Let_def split: option.splits)
  show "m_ram_block_map (LinkBlock pf pt s) = m_ram_block_map s"
    by (simp add: LinkBlock_def Let_def split: option.splits)
qed

lemma page_map_covers_Invalidate:
  assumes "page_map_covers c s" and "InvalidateBlocksWithPageIndex page_index s = Inr s'"
  shows "page_map_covers c s'"
proof -
  let ?h' = "fold (\<lambda>p h. UnlinkBlock p (mark_invalidated p h))
      (m_ram_block_map s ! unat page_index) (store s)"
  from assms(2) have s': "s' = s\<lparr> store := ?h' \<rparr>"
    by (simp add: InvalidateBlocksWithPageIndex_def split: if_splits)
  have "only_unlinks (store s) ?h'"
    by (rule only_unlinks_fold) (rule only_unlinks_invalidate_step)
  then have "same_code (store s) (store s')" using s' by (simp add: only_unlinks_same_code)
  from page_map_covers_same_code [OF assms(1) this] s' show ?thesis by simp
qed

lemma page_map_covers_FlushBlock:
  assumes "page_map_covers c s"
  shows "page_map_covers c (FlushBlock p s)"
proof (cases "store s p")
  case None
  with assms show ?thesis by (simp add: FlushBlock_def)
next
  case (Some b0)
  let ?s' = "FlushBlock p s"
  have st: "store ?s' = (UnlinkBlock p (store s))(p := None)"
    and mb: "m_blocks ?s' = (m_blocks s)(bits (key b0) := None)"
    and pm: "m_ram_block_map ?s' = map (removeAll p) (m_ram_block_map s)"
    using Some by (simp_all add: FlushBlock_def)
  have sc: "same_code (store s) (UnlinkBlock p (store s))"
    by (rule only_unlinks_same_code) (rule only_unlinks_UnlinkBlock)
  show ?thesis
    unfolding page_map_covers_def
  proof (intro conjI allI impI)
    from assms pm show "length (m_ram_block_map ?s') = unat (CPU_CODE_CACHE_PAGE_COUNT c)"
      by (simp add: page_map_covers_def)
  next
    fix k p' b' page
    assume h: "m_blocks ?s' k = Some p' \<and> store ?s' p' = Some b' \<and> end_byte c b' < 2 ^ 32
      \<and> unat page < length (m_ram_block_map ?s') \<and> block_overlaps_page c b' page"
    then have pg: "unat page < length (m_ram_block_map s)" using pm by simp
    from h st have ne: "p' \<noteq> p" and u: "UnlinkBlock p (store s) p' = Some b'"
      by (auto split: if_splits)
    from sc u obtain b where b: "store s p' = Some b" "key b = key b'"
        "instructions b = instructions b'"
      unfolding same_code_def by blast
    from h mb have k: "m_blocks s k = Some p'" by (auto split: if_splits)
    from b h have "end_byte c b < 2 ^ 32" "block_overlaps_page c b page"
      by (simp_all add: end_byte_cong [of b b'] block_overlaps_page_cong [of b b'])
    with assms k b(1) pg have "p' \<in> set (m_ram_block_map s ! unat page)"
      unfolding page_map_covers_def by blast
    with ne pg show "p' \<in> set (m_ram_block_map ?s' ! unat page)" by (simp add: pm)
  qed
qed

lemma cache_reachable_page_map_covers:
  assumes "cache_reachable c s"
  shows "page_map_covers c s"
  using assms
proof (induction rule: cache_reachable.induct)
  case reachable_new
  show ?case by (rule page_map_covers_new)
next
  case (reachable_CompileBlock s p k instrs)
  then show ?case by (simp add: page_map_covers_CompileBlock)
next
  case (reachable_LinkBlock s pf pt)
  then show ?case by (simp add: page_map_covers_LinkBlock)
next
  case (reachable_FlushBlock s p)
  then show ?case by (simp add: page_map_covers_FlushBlock)
next
  case (reachable_Invalidate s page_index s')
  then show ?case by (blast intro: page_map_covers_Invalidate)
qed

text \<open>
  Claim C1. In a cache produced by the operations of the cache, for a page index of the
  page array: \<open>InvalidateBlocksWithPageIndex page_index\<close> returns, and afterwards every
  block of the primary table whose byte range overlaps the page is still in the store,
  with the same key and instructions, its \<open>invalidated\<close> flag is set and both its link
  vectors are empty; the primary table is unchanged and no block is freed.
\<close>

theorem InvalidateBlocksWithPageIndex_invalidates_and_unlinks:
  assumes "cache_reachable c s"
    and "unat page_index < unat (CPU_CODE_CACHE_PAGE_COUNT c)"
    and "m_blocks s k = Some p" and "store s p = Some b"
    and "end_byte c b < 2 ^ 32"
    and "block_overlaps_page c b page_index"
  shows "case InvalidateBlocksWithPageIndex page_index s of
           Inl e \<Rightarrow> False
         | Inr s' \<Rightarrow>
             (case store s' p of
                None \<Rightarrow> False
              | Some b' \<Rightarrow>
                  invalidated b' \<and> link_predecessors b' = [] \<and> link_successors b' = []
                  \<and> key b' = key b \<and> instructions b' = instructions b)
             \<and> m_blocks s' = m_blocks s
             \<and> dom (store s') = dom (store s)"
proof -
  let ?step = "\<lambda>p h. UnlinkBlock p (mark_invalidated p h)"
  let ?h' = "fold ?step (m_ram_block_map s ! unat page_index) (store s)"
  let ?s' = "s\<lparr> store := ?h' \<rparr>"
  from assms(1) have inv: "page_map_covers c s" by (rule cache_reachable_page_map_covers)
  then have len: "length (m_ram_block_map s) = unat (CPU_CODE_CACHE_PAGE_COUNT c)"
    by (simp add: page_map_covers_def)
  with assms(2) have pg: "unat page_index < length (m_ram_block_map s)" by simp
  then have r: "InvalidateBlocksWithPageIndex page_index s = Inr ?s'"
    by (simp add: InvalidateBlocksWithPageIndex_def)
  from inv pg assms(3-6) have "p \<in> set (m_ram_block_map s ! unat page_index)"
    unfolding page_map_covers_def by blast
  then have iu: "invalidated_and_unlinked ?h' p"
    using assms(4) by (rule invalidate_fold_unlinked)
  have u: "only_unlinks (store s) ?h'"
    by (rule only_unlinks_fold) (rule only_unlinks_invalidate_step)
  from only_unlinks_Some [OF u assms(4)] obtain b' where
    b': "?h' p = Some b'" "block_kept b b'" by blast
  from b'(2) have "key b' = key b" "instructions b' = instructions b"
    by (simp_all add: block_kept_def)
  with b'(1) iu have blk: "case ?h' p of
            None \<Rightarrow> False
          | Some b' \<Rightarrow>
              invalidated b' \<and> link_predecessors b' = [] \<and> link_successors b' = []
              \<and> key b' = key b \<and> instructions b' = instructions b"
    by (simp add: invalidated_and_unlinked_def)
  have dm: "dom ?h' = dom (store s)"
  proof (rule set_eqI)
    fix q
    from u have "case store s q of None \<Rightarrow> ?h' q = None | Some b \<Rightarrow> ?h' q \<noteq> None"
      unfolding only_unlinks_def by (auto split: option.splits dest: spec [where x = q])
    then show "q \<in> dom ?h' \<longleftrightarrow> q \<in> dom (store s)"
      by (auto simp add: dom_def split: option.splits)
  qed
  from blk dm show ?thesis by (simp add: r)
qed

lemma CPU_CODE_CACHE_PAGE_SIZE_psx: "CPU_CODE_CACHE_PAGE_SIZE psx_constants = 1024"
  by (simp add: psx_constants_def)

lemma CPU_CODE_CACHE_PAGE_COUNT_psx: "CPU_CODE_CACHE_PAGE_COUNT psx_constants = 2048"
  by (simp add: psx_constants_def)

lemma pages_of_block_A:
  "GetStartPageIndex psx_constants
     ((new_CodeBlock (CodeBlockKey 0x80001000) :: unit CodeBlock)
        \<lparr> instructions := [nop, nop, nop] \<rparr>) = 4"
  "GetEndPageIndex psx_constants
     ((new_CodeBlock (CodeBlockKey 0x80001000) :: unit CodeBlock)
        \<lparr> instructions := [nop, nop, nop] \<rparr>) = 4"
  by (simp_all add: GetStartPageIndex_def GetEndPageIndex_def GetSizeInBytes_def
      sizeof_Instruction_def GetPCPhysicalAddress_def psx_constants_def aligned_pc_def
      BitField_GetValue_def BitField_GetMask_aligned_pc new_CodeBlock_def)

lemma pages_of_block_B:
  "GetStartPageIndex psx_constants
     ((new_CodeBlock (CodeBlockKey 0x80002000) :: unit CodeBlock) \<lparr> instructions := [nop] \<rparr>) = 8"
  "GetEndPageIndex psx_constants
     ((new_CodeBlock (CodeBlockKey 0x80002000) :: unit CodeBlock) \<lparr> instructions := [nop] \<rparr>) = 8"
  by (simp_all add: GetStartPageIndex_def GetEndPageIndex_def GetSizeInBytes_def
      sizeof_Instruction_def GetPCPhysicalAddress_def psx_constants_def aligned_pc_def
      BitField_GetValue_def BitField_GetMask_aligned_pc new_CodeBlock_def)

lemma store_CompileBlock:
  "store (CompileBlock c k instrs p s) = (store s)(p \<mapsto> (new_CodeBlock k)\<lparr> instructions := instrs \<rparr>)"
  by (simp add: CompileBlock_def store_AddBlockToPageMap)

lemma m_blocks_CompileBlock:
  "m_blocks (CompileBlock c k instrs p s) = (m_blocks s)(bits k \<mapsto> p)"
  by (simp add: CompileBlock_def m_blocks_AddBlockToPageMap)

lemma length_CompileBlock:
  "length (m_ram_block_map (CompileBlock c k instrs p s)) = length (m_ram_block_map s)"
  by (simp add: CompileBlock_def length_AddBlockToPageMap)

lemma nth_CompileBlock:
  fixes s :: "'a CodeCache"
  assumes "page < length (m_ram_block_map s)"
  shows "m_ram_block_map (CompileBlock c k instrs p s) ! page =
    (if unat (GetStartPageIndex c ((new_CodeBlock k :: 'a CodeBlock)\<lparr> instructions := instrs \<rparr>)) \<le> page
        \<and> page \<le> unat (GetEndPageIndex c ((new_CodeBlock k :: 'a CodeBlock)\<lparr> instructions := instrs \<rparr>))
     then m_ram_block_map s ! page @ [p] else m_ram_block_map s ! page)"
proof -
  let ?nb = "(new_CodeBlock k :: 'a CodeBlock)\<lparr> instructions := instrs \<rparr>"
  let ?s1 = "s\<lparr> store := (store s)(p \<mapsto> ?nb), m_blocks := (m_blocks s)(bits k \<mapsto> p) \<rparr>"
  have a1: "store ?s1 p = Some ?nb" by simp
  have e: "m_ram_block_map ?s1 = m_ram_block_map s" by simp
  from assms have a2: "page < length (m_ram_block_map ?s1)" by simp
  show ?thesis
    using nth_AddBlockToPageMap [OF a1 a2, of c] unfolding e CompileBlock_def .
qed

lemma store_two_blocks: "store two_blocks = [1 \<mapsto> block_A, 2 \<mapsto> block_B]"
  by (rule ext)
    (simp add: two_blocks_def LinkBlock_def Let_def store_CompileBlock new_CodeCache_def
      block_A_def block_B_def new_CodeBlock_def)

lemma m_blocks_two_blocks: "m_blocks two_blocks = [0x80001000 \<mapsto> 1, 0x80002000 \<mapsto> 2]"
  by (simp add: two_blocks_def LinkBlock_def Let_def store_CompileBlock m_blocks_CompileBlock
      new_CodeCache_def)

lemma m_ram_block_map_two_blocks:
  "length (m_ram_block_map two_blocks) = 2048"
  "m_ram_block_map two_blocks ! 4 = [1]"
  by (simp_all add: two_blocks_def LinkBlock_def Let_def store_CompileBlock length_CompileBlock
      nth_CompileBlock pages_of_block_A pages_of_block_B new_CodeCache_def
      CPU_CODE_CACHE_PAGE_COUNT_psx)

lemma cache_reachable_two_blocks: "cache_reachable psx_constants two_blocks"
  unfolding two_blocks_def
  by (intro reachable_LinkBlock reachable_CompileBlock reachable_new)
    (simp_all add: store_CompileBlock new_CodeCache_def)

lemma first_byte_block_A: "first_byte psx_constants block_A = 4096"
  by (simp add: first_byte_def block_A_def new_CodeBlock_def GetPCPhysicalAddress_def
      psx_constants_def aligned_pc_def BitField_GetValue_def BitField_GetMask_aligned_pc)

lemma first_byte_block_B: "first_byte psx_constants block_B = 8192"
  by (simp add: first_byte_def block_B_def new_CodeBlock_def GetPCPhysicalAddress_def
      psx_constants_def aligned_pc_def BitField_GetValue_def BitField_GetMask_aligned_pc)

lemma end_byte_block_A: "end_byte psx_constants block_A = 4108"
  by (simp add: end_byte_def first_byte_block_A sizeof_Instruction_def) (simp add: block_A_def)

lemma end_byte_block_B: "end_byte psx_constants block_B = 8196"
  by (simp add: end_byte_def first_byte_block_B sizeof_Instruction_def) (simp add: block_B_def)

lemma block_A_overlaps: "block_overlaps_page psx_constants block_A page \<longleftrightarrow> page = 4"
proof -
  have "block_overlaps_page psx_constants block_A page \<longleftrightarrow> unat page = 4"
    by (simp add: block_overlaps_page_def first_byte_block_A end_byte_block_A
        CPU_CODE_CACHE_PAGE_SIZE_psx)
      arith
  also have "\<dots> \<longleftrightarrow> page = 4"
    by (simp add: word_unat_eq_iff)
  finally show ?thesis .
qed

lemma InvalidateBlocksWithPageIndex_two_blocks:
  "InvalidateBlocksWithPageIndex 4 two_blocks =
     Inr (two_blocks\<lparr> store :=
            [1 \<mapsto> block_A\<lparr> link_successors := [], invalidated := True \<rparr>,
             2 \<mapsto> block_B\<lparr> link_predecessors := [] \<rparr>] \<rparr>)"
proof -
  have "fold (\<lambda>p h. UnlinkBlock p (mark_invalidated p h)) [1] [1 \<mapsto> block_A, 2 \<mapsto> block_B]
      = [1 \<mapsto> block_A\<lparr> link_successors := [], invalidated := True \<rparr>,
         2 \<mapsto> block_B\<lparr> link_predecessors := [] \<rparr>]"
    by (rule ext)
      (simp add: UnlinkBlock_def mark_invalidated_def erase_link_successor_def
        erase_link_predecessor_def clear_links_def block_A_def block_B_def new_CodeBlock_def)
  then show ?thesis
    by (simp add: InvalidateBlocksWithPageIndex_def m_ram_block_map_two_blocks store_two_blocks)
qed

theorem InvalidateBlocksWithPageIndex_invalidates_and_unlinks_witness:
  "cache_reachable psx_constants two_blocks
   \<and> unat (4 :: u32) < unat (CPU_CODE_CACHE_PAGE_COUNT psx_constants)
   \<and> m_blocks two_blocks 0x80001000 = Some 1
   \<and> store two_blocks 1 = Some block_A
   \<and> end_byte psx_constants block_A < 2 ^ 32
   \<and> block_overlaps_page psx_constants block_A 4
   \<and> (case InvalidateBlocksWithPageIndex 4 two_blocks of
         Inl e \<Rightarrow> False
       | Inr s' \<Rightarrow>
           (case store s' 1 of
              None \<Rightarrow> False
            | Some b' \<Rightarrow>
                invalidated b' \<and> link_predecessors b' = [] \<and> link_successors b' = []
                \<and> key b' = key block_A \<and> instructions b' = instructions block_A)
           \<and> m_blocks s' = m_blocks two_blocks
           \<and> dom (store s') = dom (store two_blocks)
           \<and> store s' 1 = Some (block_A\<lparr> link_successors := [], invalidated := True \<rparr>)
           \<and> store s' 2 = Some (block_B\<lparr> link_predecessors := [] \<rparr>))"
proof -
  have pg: "unat (4 :: u32) < unat (CPU_CODE_CACHE_PAGE_COUNT psx_constants)"
    by (simp add: CPU_CODE_CACHE_PAGE_COUNT_psx)
  have m: "m_blocks two_blocks 0x80001000 = Some 1" by (simp add: m_blocks_two_blocks)
  have h: "store two_blocks 1 = Some block_A" by (simp add: store_two_blocks)
  have e: "end_byte psx_constants block_A < 2 ^ 32" by (simp add: end_byte_block_A)
  have o: "block_overlaps_page psx_constants block_A 4" by (simp add: block_A_overlaps)
  note t = InvalidateBlocksWithPageIndex_invalidates_and_unlinks
    [OF cache_reachable_two_blocks pg m h e o]
  from t have "case InvalidateBlocksWithPageIndex 4 two_blocks of
         Inl e \<Rightarrow> False
       | Inr s' \<Rightarrow>
           (case store s' 1 of
              None \<Rightarrow> False
            | Some b' \<Rightarrow>
                invalidated b' \<and> link_predecessors b' = [] \<and> link_successors b' = []
                \<and> key b' = key block_A \<and> instructions b' = instructions block_A)
           \<and> m_blocks s' = m_blocks two_blocks
           \<and> dom (store s') = dom (store two_blocks)
           \<and> store s' 1 = Some (block_A\<lparr> link_successors := [], invalidated := True \<rparr>)
           \<and> store s' 2 = Some (block_B\<lparr> link_predecessors := [] \<rparr>)"
    by (simp add: InvalidateBlocksWithPageIndex_two_blocks)
  with cache_reachable_two_blocks pg m h e o show ?thesis by blast
qed

end
